theory Spec2Isabelle
  imports Complex_Main
begin

section \<open>Errors and devices\<close>

text \<open>
  Every exception the modelled functions can raise is a value. Each constructor
  carries the message template of the raise statement; \<open>ValueError\<close> also carries the
  number that the source formats into the message.
\<close>

datatype error =
    ValueError string int
  | AssertionError string
  | NameError string
  | TypeError string
  | RuntimeError string
  | IndexError string

text \<open>
  A \<open>torch.device\<close>. The conversion of a device name into a device
  (\<open>torch.device(device)\<close>) belongs to the library, so the model starts from a device.
\<close>

datatype device = Device string

section \<open>SamplingOptions (monte\_carlo.py, lines 23 to 68)\<close>

record SamplingOptions =
  number_samples :: int
  number_chains :: int
  number_discarded :: int
  sweep_size :: int
  device :: device

text \<open>
  The constructor, check by check in the order of the source. The message of the
  \<open>number_discarded\<close> check formats \<open>number_chains\<close>, as the source does.
\<close>

definition SamplingOptions_init ::
  "int \<Rightarrow> int \<Rightarrow> int option \<Rightarrow> int \<Rightarrow> device \<Rightarrow> error + SamplingOptions" where
  "SamplingOptions_init ns nc nd ss dev =
     (if ns \<le> 0 then Inl (ValueError ''negative number_samples: {}'' ns)
      else if nc \<le> 0 then Inl (ValueError ''negative number_chains: {}'' nc)
      else if (case nd of Some d \<Rightarrow> d \<le> 0 | None \<Rightarrow> False)
        then Inl (ValueError
          ''invalid number_discarded: {}; expected either a positive integer or None'' nc)
      else if ss \<le> 0 then Inl (ValueError ''negative sweep_size: {}'' ss)
      else Inr \<lparr> number_samples = ns, number_chains = nc,
                 number_discarded = (case nd of Some d \<Rightarrow> d | None \<Rightarrow> ns div 10),
                 sweep_size = ss, device = dev \<rparr>)"

section \<open>safe\_exp (monte\_carlo.py, lines 374 to 380)\<close>

text \<open>
  Tensors of floats are lists of reals: the arithmetic is exact. \<open>torch.max\<close> of an
  empty tensor raises.
\<close>

definition torch_max :: "real list \<Rightarrow> error + real" where
  "torch_max x =
     (if x = [] then Inl (RuntimeError ''max(): Expected reduction dim to be specified for input.numel() == 0'')
      else Inr (Max (set x)))"

definition safe_exp :: "real list \<Rightarrow> bool \<Rightarrow> error + real list" where
  "safe_exp x normalise =
     (case torch_max x of
        Inl e \<Rightarrow> Inl e
      | Inr m \<Rightarrow>
          (let x1 = map (\<lambda>v. v - m) x;
               x2 = map exp x1
           in Inr (if normalise then map (\<lambda>v. v / sum_list x2) x2 else x2)))"

section \<open>Random spin configurations (monte\_carlo.py, lines 329 to 336)\<close>

text \<open>
  A random choice is modelled by the set of values it can return.
  \<open>random.randint(a, b)\<close> returns any integer of the closed interval, and raises on an
  empty one.
\<close>

definition randint :: "int \<Rightarrow> int \<Rightarrow> error + int set" where
  "randint a b =
     (if b < a then Inl (ValueError ''empty range for randrange()'' b) else Inr {a..b})"

text \<open>\<open>int(s, base=2)\<close> of a string of binary digits, most significant digit first.\<close>

definition int_of_bits :: "bool list \<Rightarrow> int" where
  "int_of_bits bs = foldl (\<lambda>acc b. 2 * acc + (if b then 1 else 0)) 0 bs"

text \<open>
  All orders in which \<open>np.random.shuffle\<close> can leave a list of \<open>k\<close> ones followed by
  \<open>m\<close> zeros.
\<close>

fun shuffles :: "nat \<Rightarrow> nat \<Rightarrow> bool list list" where
  "shuffles 0 0 = [[]]"
| "shuffles (Suc k) 0 = map ((#) True) (shuffles k 0)"
| "shuffles 0 (Suc m) = map ((#) False) (shuffles 0 m)"
| "shuffles (Suc k) (Suc m) =
     map ((#) True) (shuffles k (Suc m)) @ map ((#) False) (shuffles (Suc k) m)"

text \<open>
  The source's \<open>1 << n - 1\<close> parses as \<open>1 << (n - 1)\<close>; a negative shift count raises.
  With a Hamming weight the bits are shuffled and read as a binary number, and the
  empty string is not a number.
\<close>

definition random_spin_configuration :: "int \<Rightarrow> int option \<Rightarrow> error + int set" where
  "random_spin_configuration n hamming_weight =
     (case hamming_weight of
        Some h \<Rightarrow>
          (if \<not> (0 \<le> h \<and> h \<le> n) then Inl (AssertionError ''invalid hamming weight'')
           else if n = 0 then Inl (ValueError ''invalid literal for int() with base 2'' 0)
           else Inr (set (map int_of_bits (shuffles (nat h) (nat (n - h))))))
      | None \<Rightarrow>
          (if n - 1 < 0 then Inl (ValueError ''negative shift count'' (n - 1))
           else randint 0 (2 ^ nat (n - 1))))"

section \<open>Integrated autocorrelation time (monte\_carlo.py, lines 383 to 416)\<close>

text \<open>
  A two-dimensional array of shape \<open>(shape0, shape1)\<close> is kept by its columns
  \<open>x[:, i]\<close>: there are \<open>shape1\<close> of them, each of length \<open>shape0\<close>.
\<close>

record ndarray2 =
  shape0 :: nat
  columns :: "real list list"

text \<open>
  \<open>autocorr_function\<close> in closed form. The source multiplies the zero-padded FFT of
  \<open>x - mean(x)\<close> by its conjugate and transforms back; the padded length is at least
  twice \<open>len(x)\<close>, so entry \<open>k\<close> of the result is the lag-\<open>k\<close> sum below, which is then
  divided by entry \<open>0\<close>. The functions that follow take the per-column
  autocorrelation as the argument \<open>acf\<close>, so that what is proved about them holds for
  whatever \<open>autocorr_function\<close> returns.
\<close>

definition autocorr_function :: "real list \<Rightarrow> real list" where
  "autocorr_function x =
     (let n = length x;
          mu = sum_list x / real n;
          d = map (\<lambda>v. v - mu) x;
          a = map (\<lambda>k. sum_list (map (\<lambda>t. d ! t * d ! (t + k)) [0..<n - k])) [0..<n]
      in map (\<lambda>v. v / a ! 0) a)"

text \<open>\<open>np.cumsum\<close>: running sums, with the sum so far as an accumulator.\<close>

fun cumsum_from :: "real \<Rightarrow> real list \<Rightarrow> real list" where
  "cumsum_from acc [] = []"
| "cumsum_from acc (v # vs) = (acc + v) # cumsum_from (acc + v) vs"

definition cumsum :: "real list \<Rightarrow> real list" where
  "cumsum vs = cumsum_from 0 vs"

text \<open>
  \<open>np.argmin\<close> of a boolean array: the first index holding the smallest value, which
  is the first \<open>False\<close> when there is one and index 0 when every entry is \<open>True\<close>.
\<close>

definition np_argmin :: "bool list \<Rightarrow> nat" where
  "np_argmin m = (if list_all (\<lambda>b. b) m then 0 else length (takeWhile (\<lambda>b. b) m))"

definition auto_window :: "real list \<Rightarrow> real \<Rightarrow> int" where
  "auto_window taus c =
     (let m = map (\<lambda>i. real i < c * taus ! i) [0..<length taus]
      in if list_ex (\<lambda>b. b) m then int (np_argmin m) else int (length taus) - 1)"

text \<open>Indexing a one-dimensional array: a negative index counts from the end.\<close>

definition np_index :: "real list \<Rightarrow> int \<Rightarrow> error + real" where
  "np_index a i =
     (let n = int (length a); j = (if i < 0 then n + i else i)
      in if 0 \<le> j \<and> j < n then Inr (a ! nat j)
         else Inl (IndexError ''index is out of bounds for axis 0''))"

definition averaged_autocorr :: "(real list \<Rightarrow> real list) \<Rightarrow> ndarray2 \<Rightarrow> real list" where
  "averaged_autocorr acf x =
     (let f = fold (\<lambda>col f. map2 (+) f (acf col)) (columns x) (replicate (shape0 x) 0)
      in map (\<lambda>v. v / real (length (columns x))) f)"

definition integrated_taus :: "(real list \<Rightarrow> real list) \<Rightarrow> ndarray2 \<Rightarrow> real list" where
  "integrated_taus acf x = map (\<lambda>s. 2 * s - 1) (cumsum (averaged_autocorr acf x))"

definition integrated_autocorr_time ::
  "(real list \<Rightarrow> real list) \<Rightarrow> ndarray2 \<Rightarrow> real \<Rightarrow> error + real" where
  "integrated_autocorr_time acf x c =
     (let taus = integrated_taus acf x;
          window = auto_window taus c
      in np_index taus window)"

text \<open>
  The window as the specification words it, for comparison: the smallest index \<open>M\<close>
  with \<open>M < c * taus[M]\<close>, else the last index.
\<close>

definition spec_window :: "real list \<Rightarrow> real \<Rightarrow> nat" where
  "spec_window taus c =
     (case find (\<lambda>M. real M < c * taus ! M) [0..<length taus] of
        Some M \<Rightarrow> M
      | None \<Rightarrow> length taus - 1)"

section \<open>The debug check of log\_apply (hamiltonian.py, lines 105 to 153)\<close>

text \<open>
  \<open>torch.isclose(a, b, rtol, atol)\<close> on finite complex numbers:
  \<open>|a - b| \<le> atol + rtol * |b|\<close>. Called without tolerances it uses
  \<open>rtol = 1e-05\<close> and \<open>atol = 1e-08\<close>. The helper \<open>_isclose\<close> of the source passes
  \<open>5e-5\<close> and \<open>5e-7\<close>.
\<close>

definition isclose :: "real \<Rightarrow> real \<Rightarrow> complex \<Rightarrow> complex \<Rightarrow> bool" where
  "isclose rtol atol a b \<longleftrightarrow> cmod (a - b) \<le> atol + rtol * cmod b"

definition torch_isclose :: "complex \<Rightarrow> complex \<Rightarrow> bool" where
  "torch_isclose a b = isclose (1 / 10 ^ 5) (1 / 10 ^ 8) a b"

definition isclose_helper :: "complex \<Rightarrow> complex \<Rightarrow> bool" where
  "isclose_helper a b = isclose (5 / 10 ^ 5) (5 / 10 ^ 7) a b"

text \<open>
  \<open>reference_log_apply\<close> fills one entry per spin with
  \<open>_reference_log_apply_one\<close>, which queries the operator and the wavefunction; it
  is the argument \<open>one\<close>.
\<close>

definition reference_log_apply :: "('s \<Rightarrow> complex) \<Rightarrow> 's list \<Rightarrow> complex list" where
  "reference_log_apply one spins = map one spins"

text \<open>
  \<open>log_apply\<close>. The accelerated routine \<open>lib.log_apply\<close> is the argument \<open>lib\<close>. The
  result pairs the lines written with \<open>logger.error\<close> (index, accelerated value,
  reference value) with the value returned or the exception raised. The comparison
  is the one the source runs: \<open>torch.isclose\<close> with its own tolerances, both for the
  overall test and entry by entry. Both tensors hold one entry per spin; sizes that
  differ are an error of \<open>torch.isclose\<close> (its broadcasting of a one-entry tensor
  is left out).
\<close>

definition log_apply ::
  "'s list \<Rightarrow> ('s list \<Rightarrow> complex list) \<Rightarrow> ('s \<Rightarrow> complex) \<Rightarrow> int \<Rightarrow> bool
     \<Rightarrow> (nat \<times> complex \<times> complex) list \<times> (error + complex list)" where
  "log_apply spins lib one batch_size debug =
     (if batch_size \<le> 0
        then ([], Inl (ValueError ''invalid batch_size: {}; expected a positive integer'' batch_size))
      else
        (let log_h_psi = lib spins in
         if debug then
           (let log_h_psi_py = reference_log_apply one spins in
            if length log_h_psi \<noteq> length log_h_psi_py
              then ([], Inl (RuntimeError ''The size of tensor a must match the size of tensor b''))
            else if \<not> list_all (\<lambda>(a, b). torch_isclose a b) (zip log_h_psi log_h_psi_py)
              then (filter (\<lambda>(i, a, b). \<not> torch_isclose a b)
                      (zip [0..<length log_h_psi] (zip log_h_psi log_h_psi_py)),
                    Inl (AssertionError ''assert False''))
            else ([], Inr log_h_psi))
         else ([], Inr log_h_psi)))"

section \<open>Metropolis sampling (monte\_carlo.py, lines 175 to 227)\<close>

text \<open>
  Floats are reals, so rounding and overflow are outside the model; what a float
  division does with a zero divisor is inside it. Dividing by zero raises nothing:
  it gives an infinity or NaN, and a comparison with NaN is false.
\<close>

datatype float = Finite real | PosInf | NegInf | NaN

definition float_div :: "real \<Rightarrow> real \<Rightarrow> float" where
  "float_div a b =
     (if b \<noteq> 0 then Finite (a / b)
      else if a = 0 then NaN
      else if 0 < a then PosInf
      else NegInf)"

fun float_le :: "float \<Rightarrow> real \<Rightarrow> bool" where
  "float_le (Finite x) e \<longleftrightarrow> x \<le> e"
| "float_le PosInf e \<longleftrightarrow> False"
| "float_le NegInf e \<longleftrightarrow> True"
| "float_le NaN e \<longleftrightarrow> False"

text \<open>
  What the sampler is given. A chain position has type \<open>'s\<close>; a batch holds one
  position per chain. \<open>log_prob_fn\<close> maps a batch to one log-probability per chain
  (after the \<open>squeeze_\<close>). The kernel and \<open>torch.rand\<close> are random: \<open>kernel_fn k\<close> is
  what the kernel returns when it is called for the \<open>k\<close>-th time, and \<open>rand k j\<close> is
  entry \<open>j\<close> of the \<open>k\<close>-th tensor of uniform draws. Both are called once in every
  elementary step, so \<open>k\<close> counts the elementary steps made so far.
\<close>

record 's sampler =
  log_prob_fn :: "'s list \<Rightarrow> real list"
  kernel_fn :: "nat \<Rightarrow> 's list \<Rightarrow> 's list \<times> real list"
  rand :: "nat \<Rightarrow> nat \<Rightarrow> real"

text \<open>
  The local variables of \<open>metropolis_process\<close>. \<open>states\<close> and \<open>log_probs\<close> are the
  output tensors, one row per sample. From line 194 on, \<open>current_state\<close> and
  \<open>current_log_prob\<close> are views of one row of them (\<open>states[i]\<close>, \<open>log_probs[i]\<close>),
  so writing through them writes that row: the model keeps the index \<open>row\<close> of the
  row they alias.
\<close>

record 's locals =
  states :: "'s list list"
  log_probs :: "real list list"
  row :: nat
  current_norm :: "real list"
  accepted :: "int list"
  calls :: nat

definition current_state :: "'s locals \<Rightarrow> 's list" where
  "current_state c = states c ! row c"

definition current_log_prob :: "'s locals \<Rightarrow> real list" where
  "current_log_prob c = log_probs c ! row c"

text \<open>The masked assignment \<open>cur[t] = prop[t]\<close>.\<close>

definition masked :: "bool list \<Rightarrow> 'a list \<Rightarrow> 'a list \<Rightarrow> 'a list" where
  "masked t cur prop = map (\<lambda>j. if t ! j then prop ! j else cur ! j) [0..<length cur]"

text \<open>Lines 200 to 203: the proposed state, norm and log-probability.\<close>

definition proposal :: "'s sampler \<Rightarrow> 's locals \<Rightarrow> 's list \<times> real list \<times> real list" where
  "proposal env c =
     (let (proposed_state, proposed_norm) = kernel_fn env (calls c) (current_state c)
      in (proposed_state, proposed_norm, log_prob_fn env proposed_state))"

text \<open>Lines 204 and 205: the mask \<open>t\<close> of the chains that accept.\<close>

definition accept_mask :: "'s sampler \<Rightarrow> 's locals \<Rightarrow> bool list" where
  "accept_mask env c =
     (case proposal env c of (proposed_state, proposed_norm, proposed_log_prob) \<Rightarrow>
        (let n = length (current_state c);
             r = map (\<lambda>j. float_div (rand env (calls c) j * proposed_norm ! j)
                            (current_norm c ! j)) [0..<n]
         in map (\<lambda>j. 0 < proposed_norm ! j \<and>
                      float_le (r ! j) (exp (proposed_log_prob ! j - current_log_prob c ! j)))
              [0..<n]))"

text \<open>One pass of the loop body of \<open>sweep\<close> (lines 200 to 209).\<close>

definition step :: "'s sampler \<Rightarrow> 's locals \<Rightarrow> 's locals" where
  "step env c =
     (case proposal env c of (proposed_state, proposed_norm, proposed_log_prob) \<Rightarrow>
        (let t = accept_mask env c
         in c\<lparr> states := (states c)[row c := masked t (current_state c) proposed_state],
               log_probs := (log_probs c)[row c := masked t (current_log_prob c) proposed_log_prob],
               current_norm := masked t (current_norm c) proposed_norm,
               accepted := map (\<lambda>j. accepted c ! j + (if t ! j then 1 else 0))
                             [0..<length (accepted c)],
               calls := Suc (calls c) \<rparr>))"

definition sweep :: "'s sampler \<Rightarrow> int \<Rightarrow> 's locals \<Rightarrow> 's locals" where
  "sweep env ss c = (step env ^^ nat ss) c"

text \<open>
  Lines 184 to 195. \<open>new_empty\<close> allocates without initialising: \<open>mem_s i\<close> and
  \<open>mem_lp i\<close> are whatever row \<open>i\<close> of the fresh tensors holds.
\<close>

definition init_locals ::
  "'s sampler \<Rightarrow> 's list \<Rightarrow> real list \<Rightarrow> int \<Rightarrow> (nat \<Rightarrow> 's list) \<Rightarrow> (nat \<Rightarrow> real list)
     \<Rightarrow> 's locals" where
  "init_locals env initial_state initial_norm ns mem_s mem_lp =
     \<lparr> states = (map mem_s [0..<nat ns])[0 := initial_state],
       log_probs = (map mem_lp [0..<nat ns])[0 := log_prob_fn env initial_state],
       row = 0,
       current_norm = initial_norm,
       accepted = replicate (length initial_state) 0,
       calls = 0 \<rparr>"

text \<open>Lines 212 and 213.\<close>

definition thermalisation :: "'s sampler \<Rightarrow> int \<Rightarrow> int \<Rightarrow> 's locals \<Rightarrow> 's locals" where
  "thermalisation env nd ss c = (sweep env ss ^^ nat nd) c"

text \<open>Line 216.\<close>

definition reset_accepted :: "'s locals \<Rightarrow> 's locals" where
  "reset_accepted c = c\<lparr> accepted := map (\<lambda>_. 0) (accepted c) \<rparr>"

text \<open>Lines 218 to 221: copy the current row into row \<open>i\<close> and move the views there.\<close>

definition next_sample :: "nat \<Rightarrow> 's locals \<Rightarrow> 's locals" where
  "next_sample i c =
     c\<lparr> states := (states c)[i := current_state c],
        log_probs := (log_probs c)[i := current_log_prob c],
        row := i \<rparr>"

text \<open>Lines 217 to 222.\<close>

definition production :: "'s sampler \<Rightarrow> int \<Rightarrow> int \<Rightarrow> 's locals \<Rightarrow> 's locals" where
  "production env ns ss c = fold (\<lambda>i c. sweep env ss (next_sample i c)) [1..<nat ns] c"

text \<open>The locals when the production loop starts, and when it ends.\<close>

definition before_production ::
  "'s sampler \<Rightarrow> 's list \<Rightarrow> real list \<Rightarrow> int \<Rightarrow> int \<Rightarrow> int \<Rightarrow> (nat \<Rightarrow> 's list)
     \<Rightarrow> (nat \<Rightarrow> real list) \<Rightarrow> 's locals" where
  "before_production env initial_state initial_norm ns nd ss mem_s mem_lp =
     reset_accepted (thermalisation env nd ss
       (init_locals env initial_state initial_norm ns mem_s mem_lp))"

definition metropolis_process ::
  "'s sampler \<Rightarrow> 's list \<Rightarrow> real list \<Rightarrow> int \<Rightarrow> int \<Rightarrow> int \<Rightarrow> (nat \<Rightarrow> 's list)
     \<Rightarrow> (nat \<Rightarrow> real list) \<Rightarrow> error + ('s list list \<times> real list list \<times> float list)" where
  "metropolis_process env initial_state initial_norm ns nd ss mem_s mem_lp =
     (if \<not> 1 \<le> ns then Inl (AssertionError ''number_samples >= 1'')
      else
        (let c = production env ns ss
                   (before_production env initial_state initial_norm ns nd ss mem_s mem_lp);
             acceptance = map (\<lambda>a. float_div (real_of_int a) (real_of_int ((ns - 1) * ss)))
                            (accepted c)
         in Inr (states c, log_probs c, acceptance)))"

text \<open>
  For comparison, a Markov chain with no tensors and no views: the batch of
  positions with its norms and log-probabilities, advanced by one elementary step
  that consumes the \<open>k\<close>-th random draws.
\<close>

record 's chain =
  position :: "'s list"
  weight :: "real list"
  log_weight :: "real list"

definition chain_step :: "'s sampler \<Rightarrow> nat \<Rightarrow> 's chain \<Rightarrow> 's chain" where
  "chain_step env k ch =
     (let (s', norm') = kernel_fn env k (position ch);
          log_prob' = log_prob_fn env s';
          acc = map (\<lambda>j. 0 < norm' ! j \<and>
                      float_le (float_div (rand env k j * norm' ! j) (weight ch ! j))
                        (exp (log_prob' ! j - log_weight ch ! j)))
                  [0..<length (position ch)]
      in \<lparr> position = masked acc (position ch) s',
            weight = masked acc (weight ch) norm',
            log_weight = masked acc (log_weight ch) log_prob' \<rparr>)"

fun chain_after :: "'s sampler \<Rightarrow> 's chain \<Rightarrow> nat \<Rightarrow> 's chain" where
  "chain_after env ch 0 = ch"
| "chain_after env ch (Suc k) = chain_step env k (chain_after env ch k)"

text \<open>
  The masks of the next \<open>k\<close> elementary steps, and of the whole production loop:
  an instrumented run that records which chains accept at each step.
\<close>

fun sweep_masks :: "'s sampler \<Rightarrow> nat \<Rightarrow> 's locals \<Rightarrow> bool list list" where
  "sweep_masks env 0 c = []"
| "sweep_masks env (Suc k) c = accept_mask env c # sweep_masks env k (step env c)"

fun production_masks :: "'s sampler \<Rightarrow> int \<Rightarrow> nat list \<Rightarrow> 's locals \<Rightarrow> bool list list" where
  "production_masks env ss [] c = []"
| "production_masks env ss (i # is) c =
     sweep_masks env (nat ss) (next_sample i c)
       @ production_masks env ss is (sweep env ss (next_sample i c))"

text \<open>
  The shapes the sampler relies on: one row index inside the tensors, one norm, one
  log-probability and one counter per chain; and a kernel and a log-probability
  function that return one entry per chain.
\<close>

definition consistent :: "'s locals \<Rightarrow> bool" where
  "consistent c \<longleftrightarrow>
     row c < length (states c) \<and> length (log_probs c) = length (states c) \<and>
     length (current_log_prob c) = length (current_state c) \<and>
     length (current_norm c) = length (current_state c) \<and>
     length (accepted c) = length (current_state c)"

definition per_chain :: "'s sampler \<Rightarrow> bool" where
  "per_chain env \<longleftrightarrow>
     (\<forall>k xs. length (fst (kernel_fn env k xs)) = length xs \<and>
             length (snd (kernel_fn env k xs)) = length xs) \<and>
     (\<forall>xs. length (log_prob_fn env xs) = length xs)"

text \<open>
  The chain that the views of \<open>c\<close> currently show; \<open>tracks\<close> says that it is the
  chain started at \<open>ch0\<close> after as many elementary steps as \<open>c\<close> has made; and
  \<open>samples_upto\<close> says that in addition the rows \<open>0\<close> to \<open>m - 1\<close> hold the chain
  after \<open>d\<close> sweeps, \<open>d + 1\<close> sweeps, and so on, of \<open>s\<close> steps each.
\<close>

definition chain_of :: "'s locals \<Rightarrow> 's chain" where
  "chain_of c = \<lparr> position = current_state c, weight = current_norm c,
                 log_weight = current_log_prob c \<rparr>"

definition tracks :: "'s sampler \<Rightarrow> 's chain \<Rightarrow> 's locals \<Rightarrow> bool" where
  "tracks env ch0 c \<longleftrightarrow> consistent c \<and> chain_of c = chain_after env ch0 (calls c)"

definition samples_upto ::
  "'s sampler \<Rightarrow> 's chain \<Rightarrow> nat \<Rightarrow> nat \<Rightarrow> nat \<Rightarrow> 's locals \<Rightarrow> bool" where
  "samples_upto env ch0 d s m c \<longleftrightarrow>
     tracks env ch0 c \<and> row c = m - 1 \<and> calls c = (d + (m - 1)) * s \<and>
     (\<forall>i<m. states c ! i = position (chain_after env ch0 ((d + i) * s)) \<and>
            log_probs c ! i = log_weight (chain_after env ch0 ((d + i) * s)))"

text \<open>
  A concrete sampler to run the results on: positions are natural numbers, the
  kernel proposes the successor with norm 1, every log-probability is 0 and every
  uniform draw is one half, so every proposal is accepted.
\<close>

definition walker :: "nat sampler" where
  "walker = \<lparr> log_prob_fn = map (\<lambda>s. 0),
              kernel_fn = (\<lambda>k xs. (map Suc xs, map (\<lambda>s. 1) xs)),
              rand = (\<lambda>k j. 1 / 2) \<rparr>"

definition walker_start :: "nat locals" where
  "walker_start = \<lparr> states = [[0]], log_probs = [[0]], row = 0, current_norm = [1],
                     accepted = [0], calls = 0 \<rparr>"

section \<open>Exact sampling (monte\_carlo.py, lines 247 to 300)\<close>

text \<open>
  A tensor of floats with its shape and device. \<open>squeeze()\<close> drops the dimensions
  of size 1.
\<close>

record tensor =
  t_shape :: "nat list"
  t_device :: device
  t_elems :: "real list"

definition squeeze :: "tensor \<Rightarrow> tensor" where
  "squeeze t = t\<lparr> t_shape := filter (\<lambda>d. d \<noteq> 1) (t_shape t) \<rparr>"

text \<open>
  Modelled from the spec: \<open>forward_with_batches\<close> of the module \<open>core\<close>, which is not
  among the sources. It is the uniform forward entry point: the function applied
  to the whole input, batch by batch.
\<close>

definition forward_with_batches :: "(int list \<Rightarrow> tensor) \<Rightarrow> int list \<Rightarrow> nat \<Rightarrow> tensor" where
  "forward_with_batches f xs batch_size = f xs"

text \<open>
  Python resolves a name that a function never assigns in the module's namespace.
  \<open>sample_exactly\<close> assigns neither \<open>xs\<close> nor \<open>ys\<close>, so both are looked up in
  \<open>globals\<close>: what the module binds, seen as a batch of basis states when it is one.
  \<open>module_names\<close> lists every name monte\_carlo.py binds at its top level.
\<close>

datatype pyobj = Batch "int list" | Other

definition module_names :: "string list" where
  "module_names =
     [''math'', ''randint'', ''Any'', ''Optional'', ''Tuple'', ''Callable'', ''np'', ''torch'',
      ''Tensor'', ''MetropolisKernel'', ''forward_with_batches'', ''__all__'',
      ''SamplingOptions'', ''metropolis_process'', ''sample_using_metropolis'',
      ''sample_exactly'', ''sample_some'', ''_random_spin_configuration'',
      ''_prepare_initial_state'', ''_log_amplitudes_to_probabilities'', ''safe_exp'',
      ''autocorr_function'', ''_auto_window'', ''integrated_autocorr_time'']"

text \<open>
  \<open>sample_exactly\<close>, statement by statement. Basis states are 64-bit integers.
  \<open>choice k\<close> is the \<open>k\<close>-th index that \<open>np.random.choice\<close> draws. The sample count
  is built as a one-element tuple, which \<open>torch.multinomial\<close> does not take for
  \<open>num_samples\<close>. The result is the pair of the states, padded to eight words and
  shaped \<open>(number_samples, number_chains, 8)\<close>, and their log-probabilities.
\<close>

definition sample_exactly ::
  "(string \<rightharpoonup> pyobj) \<Rightarrow> (int list \<Rightarrow> tensor) \<Rightarrow> int list \<Rightarrow> SamplingOptions \<Rightarrow> (nat \<Rightarrow> nat)
     \<Rightarrow> error + (int list list list \<times> real list list)" where
  "sample_exactly globals lpf basis_states options choice =
     (case globals ''xs'' of
        None \<Rightarrow> Inl (NameError ''xs'')
      | Some Other \<Rightarrow> Inl (TypeError ''forward_with_batches'')
      | Some (Batch xs) \<Rightarrow>
          (let log_prob = squeeze (forward_with_batches lpf xs 4096) in
           if length (t_shape log_prob) \<noteq> 1
             then Inl (ValueError ''log_prob_fn should return the logarithm of the probability, but output tensor has dimension {}; did you by accident usesign instead of amplitude network?''
                        (int (length (t_shape log_prob))))
           else if t_device log_prob \<noteq> device options
             then (case globals ''ys'' of
                     None \<Rightarrow> Inl (NameError ''ys'')
                   | Some _ \<Rightarrow> Inl (ValueError ''log_prob_fn should return tensors residing on {}; received tensors residing on {} instead'' 0))
           else
             (case safe_exp (t_elems log_prob) True of
                Inl e \<Rightarrow> Inl e
              | Inr prob \<Rightarrow>
                  (let nc = nat (number_chains options);
                       ns = nat (number_samples options)
                   in if length prob < 2 ^ 24
                        then Inl (TypeError ''multinomial(): argument num_samples must be int, not tuple'')
                      else
                        (let indices = map choice [0..<nc * ns] in
                         if \<exists>i\<in>set indices. length (t_elems log_prob) \<le> i \<or> length basis_states \<le> i
                           then Inl (IndexError ''index out of range'')
                         else Inr (map (\<lambda>i. map (\<lambda>j. basis_states ! (indices ! (i * nc + j))
                                                    # replicate 7 0) [0..<nc]) [0..<ns],
                                   map (\<lambda>i. map (\<lambda>j. t_elems log_prob ! (indices ! (i * nc + j)))
                                              [0..<nc]) [0..<ns]))))))"

section \<open>Results: SamplingOptions\<close>

text \<open>
  Claim C6, as amended. Construction succeeds exactly when \<open>number_samples\<close>,
  \<open>number_chains\<close> and \<open>sweep_size\<close> are positive and \<open>number_discarded\<close> is either
  \<open>None\<close> or positive: an explicit 0 is refused, as the docstring says. On success
  every field holds the value given (and \<open>number_samples // 10\<close> for \<open>None\<close>):
  nothing is clamped. Every failure is a \<open>ValueError\<close> with a message.
\<close>

theorem SamplingOptions_init_succeeds_iff:
  "((\<exists>opts. SamplingOptions_init ns nc nd ss dev = Inr opts) \<longleftrightarrow>
      0 < ns \<and> 0 < nc \<and> 0 < ss \<and> (nd = None \<or> (\<exists>d. nd = Some d \<and> 0 < d))) \<and>
   (\<forall>opts. SamplingOptions_init ns nc nd ss dev = Inr opts \<longrightarrow>
      opts = \<lparr> number_samples = ns, number_chains = nc,
               number_discarded = (case nd of None \<Rightarrow> ns div 10 | Some d \<Rightarrow> d),
               sweep_size = ss, device = dev \<rparr>) \<and>
   (\<forall>e. SamplingOptions_init ns nc nd ss dev = Inl e \<longrightarrow> (\<exists>msg v. e = ValueError msg v))"
  by (auto simp: SamplingOptions_init_def split: option.splits if_splits)

theorem SamplingOptions_init_succeeds_iff_witness:
  "SamplingOptions_init 100 4 None 1 (Device ''cpu'')
     = Inr \<lparr> number_samples = 100, number_chains = 4, number_discarded = 10,
            sweep_size = 1, device = Device ''cpu'' \<rparr>"
proof -
  have "\<exists>opts. SamplingOptions_init 100 4 None 1 (Device ''cpu'') = Inr opts"
    using SamplingOptions_init_succeeds_iff[of 100 4 None 1 "Device ''cpu''"] by simp
  then obtain opts where o: "SamplingOptions_init 100 4 None 1 (Device ''cpu'') = Inr opts" ..
  with SamplingOptions_init_succeeds_iff[of 100 4 None 1 "Device ''cpu''"]
  have "opts = \<lparr> number_samples = 100, number_chains = 4,
               number_discarded = (case None of None \<Rightarrow> 100 div 10 | Some d \<Rightarrow> d),
               sweep_size = 1, device = Device ''cpu'' \<rparr>" by blast
  with o show ?thesis by simp
qed

text \<open>
  Claim C6 as worded lets \<open>number_discarded = 0\<close> through. The constructor refuses
  it, although the other three values are positive.
\<close>

theorem SamplingOptions_init_zero_discarded_counterexample:
  "(0::int) < 10 \<and> (0::int) < 1 \<and> (0::int) \<le> 0 \<and>
   SamplingOptions_init 10 1 (Some 0) 1 (Device ''cpu'') =
     Inl (ValueError ''invalid number_discarded: {}; expected either a positive integer or None'' 1)"
  by (simp add: SamplingOptions_init_def)

section \<open>Results: safe\_exp\<close>

lemma Max_shift: "x \<noteq> [] \<Longrightarrow> Max (set (map (\<lambda>v. v + c) x)) = Max (set x) + (c::real)"
proof -
  assume "x \<noteq> []"
  then have "Max ((\<lambda>v. v + c) ` set x) = Max (set x) + c"
    by (intro mono_Max_commute[symmetric]) (auto simp: mono_def)
  then show ?thesis by simp
qed

lemma sum_list_exp_pos:
  assumes "x \<noteq> []"
  shows "0 < sum_list (map (\<lambda>v. exp (v - m)) (x::real list))"
proof -
  from assms obtain a xs where x: "x = a # xs" by (cases x) auto
  have "0 \<le> sum_list (map (\<lambda>v. exp (v - m)) xs)" by (intro sum_list_nonneg) auto
  then show ?thesis by (simp add: x add_pos_nonneg)
qed

lemma sum_list_divide: "sum_list (map (\<lambda>v. v / (s::real)) xs) = sum_list xs / s"
  by (induction xs) (auto simp: add_divide_distrib)

text \<open>
  Claim C7. For a non-empty vector, the normalised result sums to 1, and adding a
  constant to every entry changes the result neither with nor without
  normalisation. The arithmetic is exact.
\<close>

theorem safe_exp_sums_to_one_and_shift_invariant:
  assumes "x \<noteq> []"
  shows "(\<exists>p. safe_exp x True = Inr p \<and> sum_list p = 1) \<and>
         (\<forall>c normalise. safe_exp (map (\<lambda>v. v + c) x) normalise = safe_exp x normalise)"
proof (intro conjI allI)
  let ?e = "map (\<lambda>v. exp (v - Max (set x))) x"
  have pos: "0 < sum_list ?e" using assms by (rule sum_list_exp_pos)
  have "safe_exp x True = Inr (map (\<lambda>v. v / sum_list ?e) ?e)"
    using assms by (simp add: safe_exp_def torch_max_def comp_def)
  moreover have "sum_list (map (\<lambda>v. v / sum_list ?e) ?e) = 1"
    using pos by (simp only: sum_list_divide) simp
  ultimately show "\<exists>p. safe_exp x True = Inr p \<and> sum_list p = 1" by blast
next
  fix c normalise
  show "safe_exp (map (\<lambda>v. v + c) x) normalise = safe_exp x normalise"
    using assms by (simp add: safe_exp_def torch_max_def Max_shift comp_def del: set_map)
qed

theorem safe_exp_sums_to_one_and_shift_invariant_witness:
  "[0, 0] \<noteq> ([] :: real list) \<and> safe_exp [0, 0] True = Inr [1 / 2, 1 / 2] \<and>
   sum_list [1 / 2, 1 / 2 :: real] = 1 \<and> safe_exp [3, 3] True = Inr [1 / 2, 1 / 2]"
proof -
  have n: "[0, 0] \<noteq> ([] :: real list)" by simp
  have v: "safe_exp [0, 0] True = Inr [1 / 2, 1 / 2]"
    by (simp add: safe_exp_def torch_max_def)
  from safe_exp_sums_to_one_and_shift_invariant[OF n]
  have "safe_exp (map (\<lambda>v. v + 3) [0, 0]) True = safe_exp [0, 0] True"
    by blast
  with v n show ?thesis by simp
qed

section \<open>Results: random spin configurations\<close>

lemma random_spin_configuration_weight_one:
  "random_spin_configuration 2 (Some 1) = Inr {1, 2}"
  by (auto simp: random_spin_configuration_def int_of_bits_def numeral_2_eq_2)

text \<open>
  Claim C10, as amended. For \<open>n \<ge> 1\<close> and no Hamming weight the values that can
  be returned are exactly the integers from 0 to \<open>2^(n-1)\<close>; and for \<open>n \<ge> 2\<close> some
  \<open>n\<close>-bit configuration, a value between 0 and \<open>2^n - 1\<close>, can never be returned.
\<close>

theorem random_spin_configuration_range:
  assumes "1 \<le> n"
  shows "\<exists>S. random_spin_configuration n None = Inr S \<and>
           (\<forall>v. v \<in> S \<longleftrightarrow> 0 \<le> v \<and> v \<le> 2 ^ nat (n - 1)) \<and>
           (2 \<le> n \<longrightarrow> (\<exists>v. 0 \<le> v \<and> v \<le> 2 ^ nat n - 1 \<and> v \<notin> S))"
proof -
  have r: "random_spin_configuration n None = Inr {0 .. 2 ^ nat (n - 1)}"
    using assms by (simp add: random_spin_configuration_def randint_def)
  have "2 \<le> n \<longrightarrow> (\<exists>v::int. 0 \<le> v \<and> v \<le> 2 ^ nat n - 1 \<and> v \<notin> {0 .. 2 ^ nat (n - 1)})"
  proof
    assume n2: "2 \<le> n"
    then have e: "nat n = Suc (nat (n - 1))" by simp
    from n2 have "1 \<le> nat (n - 1)" by simp
    then have "(2::int) ^ 1 \<le> 2 ^ nat (n - 1)" by (intro power_increasing) simp_all
    then have "(2::int) ^ nat (n - 1) < 2 ^ nat n - 1" by (simp add: e)
    then show "\<exists>v::int. 0 \<le> v \<and> v \<le> 2 ^ nat n - 1 \<and> v \<notin> {0 .. 2 ^ nat (n - 1)}"
      by (intro exI[of _ "2 ^ nat n - 1"]) simp
  qed
  with r show ?thesis by simp
qed

theorem random_spin_configuration_range_witness:
  "(1::int) \<le> 3 \<and> (2::int) \<le> 3 \<and>
   (\<exists>S. random_spin_configuration 3 None = Inr S \<and> 4 \<in> S \<and> 5 \<notin> S \<and> 7 \<notin> S)"
  using random_spin_configuration_range[of 3]
  by (simp add: random_spin_configuration_def randint_def)

text \<open>
  Claim C10 as worded says so for every \<open>n \<ge> 1\<close>. For \<open>n = 1\<close> the interval from 0
  to \<open>2^0\<close> is the full range from 0 to \<open>2^1 - 1\<close>: every one-bit configuration can
  be returned.
\<close>

theorem random_spin_configuration_one_spin_counterexample:
  "\<exists>S. random_spin_configuration 1 None = Inr S \<and> {0 .. 2 ^ 1 - 1} \<subseteq> S"
  by (simp add: random_spin_configuration_def randint_def)

section \<open>Results: the debug check of log\_apply\<close>

lemma isclose_helper_weaker: "torch_isclose a b \<Longrightarrow> isclose_helper a b"
proof -
  assume "torch_isclose a b"
  then have "cmod (a - b) \<le> 1 / 10 ^ 8 + 1 / 10 ^ 5 * cmod b"
    by (simp add: torch_isclose_def isclose_def)
  also have "\<dots> \<le> 5 / 10 ^ 7 + 5 / 10 ^ 5 * cmod b"
    by (intro add_mono mult_right_mono) simp_all
  finally show ?thesis by (simp add: isclose_helper_def isclose_def)
qed

lemma list_all_zip_nth:
  "length xs = length ys \<Longrightarrow>
   list_all (\<lambda>(a, b). P a b) (zip xs ys) \<longleftrightarrow> (\<forall>i<length xs. P (xs ! i) (ys ! i))"
  by (auto simp: list_all_iff set_zip)

lemma zip_upt_nth: "zip [0..<length zs] zs = map (\<lambda>i. (i, zs ! i)) [0..<length zs]"
  by (intro nth_equalityI) auto

lemma set_filter_zip_index:
  assumes "length xs = length ys"
  shows "(i, u, v) \<in> set (filter (\<lambda>(i, a, b). \<not> P a b) (zip [0..<length xs] (zip xs ys)))
     \<longleftrightarrow> i < length xs \<and> u = xs ! i \<and> v = ys ! i \<and> \<not> P u v"
proof -
  have "zip [0..<length xs] (zip xs ys) = map (\<lambda>i. (i, xs ! i, ys ! i)) [0..<length xs]"
    using zip_upt_nth[of "zip xs ys"] assms by simp
  then show ?thesis by auto
qed

text \<open>
  Claim C2, as amended. With \<open>debug=True\<close> the accelerated result is compared with
  \<open>reference_log_apply\<close> entry by entry with the tolerances of \<open>torch.isclose\<close>
  itself, relative 1e-5 and absolute 1e-8. When every entry agrees the result is
  returned and nothing is logged. Otherwise the check fails with an assertion
  error, after logging exactly the entries that disagree, each with its index and
  both values. Every entry that disagrees beyond relative 5e-5 and absolute 5e-7
  is among them.
\<close>

theorem log_apply_debug_check:
  assumes "0 < batch_size" and "length (lib spins) = length spins"
  shows
   "((\<forall>i<length spins. torch_isclose (lib spins ! i) (one (spins ! i))) \<longrightarrow>
       log_apply spins lib one batch_size True = ([], Inr (lib spins))) \<and>
    (\<not> (\<forall>i<length spins. torch_isclose (lib spins ! i) (one (spins ! i))) \<longrightarrow>
       snd (log_apply spins lib one batch_size True) = Inl (AssertionError ''assert False'') \<and>
       (\<forall>i u v. (i, u, v) \<in> set (fst (log_apply spins lib one batch_size True)) \<longleftrightarrow>
          i < length spins \<and> u = lib spins ! i \<and> v = one (spins ! i) \<and> \<not> torch_isclose u v)) \<and>
    (\<forall>i<length spins. \<not> isclose_helper (lib spins ! i) (one (spins ! i)) \<longrightarrow>
       snd (log_apply spins lib one batch_size True) = Inl (AssertionError ''assert False'') \<and>
       (i, lib spins ! i, one (spins ! i)) \<in> set (fst (log_apply spins lib one batch_size True)))"
proof -
  let ?a = "lib spins" and ?b = "reference_log_apply one spins"
  have len: "length ?a = length ?b" using assms(2) by (simp add: reference_log_apply_def)
  have nth: "\<And>i. i < length spins \<Longrightarrow> ?b ! i = one (spins ! i)"
    by (simp add: reference_log_apply_def)
  have all: "list_all (\<lambda>(a, b). torch_isclose a b) (zip ?a ?b)
               \<longleftrightarrow> (\<forall>i<length spins. torch_isclose (?a ! i) (one (spins ! i)))"
    using list_all_zip_nth[OF len, of torch_isclose] nth assms(2) by auto
  have ok: "(\<forall>i<length spins. torch_isclose (?a ! i) (one (spins ! i))) \<longrightarrow>
       log_apply spins lib one batch_size True = ([], Inr ?a)"
    using assms(1) len all by (simp add: log_apply_def Let_def)
  have bad: "\<not> (\<forall>i<length spins. torch_isclose (?a ! i) (one (spins ! i))) \<Longrightarrow>
       log_apply spins lib one batch_size True =
         (filter (\<lambda>(i, a, b). \<not> torch_isclose a b) (zip [0..<length ?a] (zip ?a ?b)),
          Inl (AssertionError ''assert False''))"
    using assms(1) len all by (simp add: log_apply_def Let_def)
  have mem: "\<And>i u v. (i, u, v) \<in> set (filter (\<lambda>(i, a, b). \<not> torch_isclose a b)
                 (zip [0..<length ?a] (zip ?a ?b)))
       \<longleftrightarrow> i < length spins \<and> u = ?a ! i \<and> v = one (spins ! i) \<and> \<not> torch_isclose u v"
    using set_filter_zip_index[OF len, of _ _ _ torch_isclose] nth assms(2) by auto
  have fail: "\<not> (\<forall>i<length spins. torch_isclose (?a ! i) (one (spins ! i))) \<longrightarrow>
       snd (log_apply spins lib one batch_size True) = Inl (AssertionError ''assert False'') \<and>
       (\<forall>i u v. (i, u, v) \<in> set (fst (log_apply spins lib one batch_size True)) \<longleftrightarrow>
          i < length spins \<and> u = ?a ! i \<and> v = one (spins ! i) \<and> \<not> torch_isclose u v)"
    using bad mem by simp
  have helper: "\<forall>i<length spins. \<not> isclose_helper (?a ! i) (one (spins ! i)) \<longrightarrow>
       snd (log_apply spins lib one batch_size True) = Inl (AssertionError ''assert False'') \<and>
       (i, ?a ! i, one (spins ! i)) \<in> set (fst (log_apply spins lib one batch_size True))"
  proof (intro allI impI)
    fix i assume i: "i < length spins" and h: "\<not> isclose_helper (?a ! i) (one (spins ! i))"
    then have n: "\<not> torch_isclose (?a ! i) (one (spins ! i))"
      using isclose_helper_weaker by blast
    with i have "\<not> (\<forall>i<length spins. torch_isclose (?a ! i) (one (spins ! i)))" by blast
    with fail i n
    show "snd (log_apply spins lib one batch_size True) = Inl (AssertionError ''assert False'') \<and>
       (i, ?a ! i, one (spins ! i)) \<in> set (fst (log_apply spins lib one batch_size True))"
      by blast
  qed
  from ok fail helper show ?thesis by blast
qed

theorem log_apply_debug_check_witness:
  "(0::int) < 128 \<and> length ((\<lambda>_. [100003 / 100000 :: complex]) [()]) = length [()] \<and>
   snd (log_apply [()] (\<lambda>_. [100003 / 100000]) (\<lambda>_. 1) 128 True)
     = Inl (AssertionError ''assert False'') \<and>
   (0, 100003 / 100000, 1)
     \<in> set (fst (log_apply [()] (\<lambda>_. [100003 / 100000]) (\<lambda>_. 1) 128 True))"
proof -
  have n: "\<not> torch_isclose (100003 / 100000) 1"
    by (simp add: torch_isclose_def isclose_def norm_divide)
  have b: "(0::int) < 128" by simp
  have l: "length ((\<lambda>_. [100003 / 100000 :: complex]) [()]) = length [()]" by simp
  from log_apply_debug_check[OF b l, of "\<lambda>_. 1"] n show ?thesis by simp
qed

text \<open>
  Claim C2 as worded compares with relative tolerance 5e-5 and absolute tolerance
  5e-7. The accelerated value 1.00003 against the reference value 1 is within
  that tolerance, and the check fails on it all the same.
\<close>

theorem log_apply_debug_tolerance_counterexample:
  "isclose_helper (100003 / 100000) 1 \<and>
   log_apply [()] (\<lambda>_. [100003 / 100000]) (\<lambda>_. 1) 128 True
     = ([(0, 100003 / 100000, 1)], Inl (AssertionError ''assert False''))"
  by (simp add: log_apply_def reference_log_apply_def torch_isclose_def isclose_helper_def
      isclose_def norm_divide)

section \<open>Results: integrated autocorrelation time\<close>

lemma length_cumsum_from: "length (cumsum_from acc vs) = length vs"
  by (induction vs arbitrary: acc) auto

lemma nth_cumsum_from:
  "i < length vs \<Longrightarrow> cumsum_from acc vs ! i = acc + sum_list (take (Suc i) vs)"
proof (induction vs arbitrary: acc i)
  case Nil
  then show ?case by simp
next
  case (Cons v vs)
  show ?case
  proof (cases i)
    case 0
    then show ?thesis by simp
  next
    case (Suc j)
    with Cons.prems have "j < length vs" by simp
    from Cons.IH[OF this, of "acc + v"] Suc show ?thesis by simp
  qed
qed

lemma length_fold_add:
  "\<forall>col\<in>set cols. length (acf col) = length f \<Longrightarrow>
   length (fold (\<lambda>col f. map2 (+) f (acf col)) cols f) = length (f::real list)"
  by (induction cols arbitrary: f) auto

lemma nth_fold_add:
  "\<forall>col\<in>set cols. length (acf col) = length f \<Longrightarrow> k < length f \<Longrightarrow>
   fold (\<lambda>col f. map2 (+) f (acf col)) cols f ! k
     = (f ! k :: real) + (\<Sum>col\<leftarrow>cols. acf col ! k)"
proof (induction cols arbitrary: f)
  case Nil
  then show ?case by simp
next
  case (Cons a cols)
  have len: "length (map2 (+) f (acf a)) = length f" using Cons.prems by simp
  have "fold (\<lambda>col f. map2 (+) f (acf col)) cols (map2 (+) f (acf a)) ! k
          = map2 (+) f (acf a) ! k + (\<Sum>col\<leftarrow>cols. acf col ! k)"
    using Cons.prems by (intro Cons.IH) (auto simp: len)
  then show ?case using Cons.prems by simp
qed

lemma np_argmin_first_False:
  assumes "\<not> list_all (\<lambda>b. b) m"
  shows "np_argmin m < length m \<and> \<not> m ! np_argmin m \<and> (\<forall>k<np_argmin m. m ! k)"
proof -
  let ?k = "length (takeWhile (\<lambda>b. b) m)"
  have eq: "np_argmin m = ?k" using assms by (simp add: np_argmin_def)
  from assms have ex: "\<exists>b\<in>set m. \<not> b" by (simp add: list_all_iff)
  have "?k \<noteq> length m"
  proof
    assume "?k = length m"
    then have "takeWhile (\<lambda>b. b) m = m"
      using takeWhile_eq_take[of "\<lambda>b. b" m] by simp
    then have "\<forall>b\<in>set m. b" by simp
    with ex show False by blast
  qed
  then have lt: "?k < length m"
    using length_takeWhile_le[of "\<lambda>b. b" m] by simp
  have "\<not> m ! ?k" using lt by (rule nth_length_takeWhile)
  moreover have "\<forall>k<?k. m ! k"
  proof (intro allI impI)
    fix k assume "k < ?k"
    then have "takeWhile (\<lambda>b. b) m ! k = m ! k" by (rule takeWhile_nth)
    moreover have "takeWhile (\<lambda>b. b) m ! k \<in> set (takeWhile (\<lambda>b. b) m)"
      using \<open>k < ?k\<close> by simp
    ultimately show "m ! k" by (metis set_takeWhileD)
  qed
  ultimately show ?thesis using eq lt by simp
qed

lemma length_averaged_autocorr:
  "\<forall>col\<in>set (columns x). length col = shape0 x \<and> length (acf col) = length col \<Longrightarrow>
   length (averaged_autocorr acf x) = shape0 x"
  by (simp add: averaged_autocorr_def length_fold_add)

lemma nth_averaged_autocorr:
  assumes "\<forall>col\<in>set (columns x). length col = shape0 x \<and> length (acf col) = length col"
    and "k < shape0 x"
  shows "averaged_autocorr acf x ! k
           = (\<Sum>col\<leftarrow>columns x. acf col ! k) / real (length (columns x))"
proof -
  let ?f = "fold (\<lambda>col f. map2 (+) f (acf col)) (columns x) (replicate (shape0 x) 0)"
  have len: "length ?f = shape0 x" using assms(1) by (simp add: length_fold_add)
  have "?f ! k = replicate (shape0 x) 0 ! k + (\<Sum>col\<leftarrow>columns x. acf col ! k)"
    using assms by (intro nth_fold_add) auto
  then show ?thesis using assms(2) len by (simp add: averaged_autocorr_def)
qed

lemma length_integrated_taus:
  "\<forall>col\<in>set (columns x). length col = shape0 x \<and> length (acf col) = length col \<Longrightarrow>
   length (integrated_taus acf x) = shape0 x"
  by (simp add: integrated_taus_def cumsum_def length_cumsum_from length_averaged_autocorr)

lemma nth_integrated_taus:
  assumes "\<forall>col\<in>set (columns x). length col = shape0 x \<and> length (acf col) = length col"
    and "M < shape0 x"
  shows "integrated_taus acf x ! M
           = 2 * (\<Sum>k\<leftarrow>[0..<Suc M].
                    (\<Sum>col\<leftarrow>columns x. acf col ! k) / real (length (columns x))) - 1"
proof -
  let ?f = "averaged_autocorr acf x"
  have len: "length ?f = shape0 x" using assms(1) by (rule length_averaged_autocorr)
  have "take (Suc M) ?f = map (\<lambda>k. ?f ! k) [0..<Suc M]"
    using assms(2) len by (intro nth_equalityI) (auto simp del: upt_Suc)
  also have "\<dots> = map (\<lambda>k. (\<Sum>col\<leftarrow>columns x. acf col ! k) / real (length (columns x)))
                      [0..<Suc M]"
    using assms by (intro map_cong refl nth_averaged_autocorr) auto
  finally have "sum_list (take (Suc M) ?f)
        = (\<Sum>k\<leftarrow>[0..<Suc M]. (\<Sum>col\<leftarrow>columns x. acf col ! k) / real (length (columns x)))"
    by simp
  then show ?thesis
    using assms(2) len
    by (simp add: integrated_taus_def cumsum_def length_cumsum_from nth_cumsum_from
        del: upt_Suc)
qed

lemma auto_window_cases:
  assumes "0 < length taus"
  shows "((\<forall>M<length taus. \<not> real M < c * taus ! M) \<longrightarrow>
            auto_window taus c = int (length taus) - 1) \<and>
         ((\<forall>M<length taus. real M < c * taus ! M) \<longrightarrow> auto_window taus c = 0) \<and>
         ((\<exists>M<length taus. real M < c * taus ! M) \<and>
          (\<exists>M<length taus. \<not> real M < c * taus ! M) \<longrightarrow>
            (\<exists>M<length taus. auto_window taus c = int M \<and> \<not> real M < c * taus ! M \<and>
               (\<forall>k<M. real k < c * taus ! k)))"
proof -
  let ?m = "map (\<lambda>i. real i < c * taus ! i) [0..<length taus]"
  have any: "list_ex (\<lambda>b. b) ?m \<longleftrightarrow> (\<exists>M<length taus. real M < c * taus ! M)"
    by (auto simp: list_ex_iff)
  have all: "list_all (\<lambda>b. b) ?m \<longleftrightarrow> (\<forall>M<length taus. real M < c * taus ! M)"
    by (auto simp: list_all_iff)
  have none: "(\<forall>M<length taus. \<not> real M < c * taus ! M) \<longrightarrow>
            auto_window taus c = int (length taus) - 1"
    using any by (auto simp: auto_window_def Let_def)
  have every: "(\<forall>M<length taus. real M < c * taus ! M) \<longrightarrow> auto_window taus c = 0"
  proof
    assume a: "\<forall>M<length taus. real M < c * taus ! M"
    with assms have "\<exists>M<length taus. real M < c * taus ! M" by blast
    with a any all show "auto_window taus c = 0"
      by (simp add: auto_window_def Let_def np_argmin_def)
  qed
  have mixed: "(\<exists>M<length taus. real M < c * taus ! M) \<and>
          (\<exists>M<length taus. \<not> real M < c * taus ! M) \<longrightarrow>
            (\<exists>M<length taus. auto_window taus c = int M \<and> \<not> real M < c * taus ! M \<and>
               (\<forall>k<M. real k < c * taus ! k))"
  proof
    assume a: "(\<exists>M<length taus. real M < c * taus ! M) \<and>
          (\<exists>M<length taus. \<not> real M < c * taus ! M)"
    then have na: "\<not> list_all (\<lambda>b. b) ?m" using all by blast
    from np_argmin_first_False[OF na]
    have lt: "np_argmin ?m < length taus" and f: "\<not> ?m ! np_argmin ?m"
      and b: "\<forall>k<np_argmin ?m. ?m ! k" by (simp, blast, blast)
    have w: "auto_window taus c = int (np_argmin ?m)"
      using a any by (simp add: auto_window_def Let_def)
    have "\<not> real (np_argmin ?m) < c * taus ! np_argmin ?m" using f lt by simp
    moreover have "\<forall>k<np_argmin ?m. real k < c * taus ! k"
    proof (intro allI impI)
      fix k assume k: "k < np_argmin ?m"
      with b have "?m ! k" by blast
      moreover have "k < length taus" using k lt by simp
      ultimately show "real k < c * taus ! k" by simp
    qed
    ultimately show "\<exists>M<length taus. auto_window taus c = int M \<and> \<not> real M < c * taus ! M \<and>
               (\<forall>k<M. real k < c * taus ! k)"
      using lt w by blast
  qed
  from none every mixed show ?thesis by blast
qed

lemma np_index_nat: "M < length a \<Longrightarrow> np_index a (int M) = Inr (a ! M)"
  by (simp add: np_index_def)

lemma np_index_last:
  "0 < length a \<Longrightarrow> np_index a (int (length a) - 1) = Inr (a ! (length a - 1))"
  by (simp add: np_index_def Let_def nat_diff_distrib')

lemma autocorr_function_alternating:
  "autocorr_function [1, -1, 1, -1] = [1, - (3 / 4), 1 / 2, - (1 / 4)]"
  by (simp add: autocorr_function_def Let_def upt_rec[of _ "numeral _"] upt_rec[of _ "Suc _"])

lemma integrated_taus_alternating:
  "integrated_taus autocorr_function \<lparr>shape0 = 4, columns = [[1, -1, 1, -1]]\<rparr>
     = [1, - (1 / 2), 1 / 2, 0]"
  by (simp add: integrated_taus_def averaged_autocorr_def cumsum_def
      autocorr_function_alternating numeral_eq_Suc)

text \<open>
  Claim C3, as amended. The per-chain autocorrelation functions are averaged over
  the columns of \<open>x\<close> and \<open>taus[M] = 2 * cumsum(average)[M] - 1\<close>. The value returned
  is \<open>taus\<close> at the smallest index \<open>M\<close> at which \<open>M < c * taus[M]\<close> fails, when the
  inequality holds at some index and fails at some index; \<open>taus\<close> at the last index
  when it holds at no index; and \<open>taus[0]\<close> when it holds at every index.
\<close>

theorem integrated_autocorr_time_window:
  assumes "0 < shape0 x" and "columns x \<noteq> []"
    and "\<forall>col\<in>set (columns x). length col = shape0 x \<and> length (acf col) = length col"
  shows "length (integrated_taus acf x) = shape0 x \<and>
    (\<forall>M<shape0 x. integrated_taus acf x ! M
        = 2 * (\<Sum>k\<leftarrow>[0..<Suc M].
                 (\<Sum>col\<leftarrow>columns x. acf col ! k) / real (length (columns x))) - 1) \<and>
    ((\<forall>M<shape0 x. \<not> real M < c * integrated_taus acf x ! M) \<longrightarrow>
        integrated_autocorr_time acf x c = Inr (integrated_taus acf x ! (shape0 x - 1))) \<and>
    ((\<exists>M<shape0 x. real M < c * integrated_taus acf x ! M) \<and>
     (\<exists>M<shape0 x. \<not> real M < c * integrated_taus acf x ! M) \<longrightarrow>
        (\<exists>M<shape0 x. \<not> real M < c * integrated_taus acf x ! M \<and>
           (\<forall>k<M. real k < c * integrated_taus acf x ! k) \<and>
           integrated_autocorr_time acf x c = Inr (integrated_taus acf x ! M))) \<and>
    ((\<forall>M<shape0 x. real M < c * integrated_taus acf x ! M) \<longrightarrow>
        integrated_autocorr_time acf x c = Inr (integrated_taus acf x ! 0))"
proof -
  let ?taus = "integrated_taus acf x"
  have len: "length ?taus = shape0 x" using assms(3) by (rule length_integrated_taus)
  have pos: "0 < length ?taus" using len assms(1) by simp
  note w = auto_window_cases[OF pos, of c, unfolded len]
  have A: "\<forall>M<shape0 x. ?taus ! M
        = 2 * (\<Sum>k\<leftarrow>[0..<Suc M].
                 (\<Sum>col\<leftarrow>columns x. acf col ! k) / real (length (columns x))) - 1"
    using nth_integrated_taus[OF assms(3)] by blast
  have B: "(\<forall>M<shape0 x. \<not> real M < c * ?taus ! M) \<longrightarrow>
        integrated_autocorr_time acf x c = Inr (?taus ! (shape0 x - 1))"
    using w np_index_last[OF pos] len by (simp add: integrated_autocorr_time_def Let_def)
  have C: "(\<exists>M<shape0 x. real M < c * ?taus ! M) \<and>
     (\<exists>M<shape0 x. \<not> real M < c * ?taus ! M) \<longrightarrow>
        (\<exists>M<shape0 x. \<not> real M < c * ?taus ! M \<and>
           (\<forall>k<M. real k < c * ?taus ! k) \<and>
           integrated_autocorr_time acf x c = Inr (?taus ! M))"
  proof
    assume "(\<exists>M<shape0 x. real M < c * ?taus ! M) \<and>
     (\<exists>M<shape0 x. \<not> real M < c * ?taus ! M)"
    with w obtain M where M: "M < shape0 x" "auto_window ?taus c = int M"
      "\<not> real M < c * ?taus ! M" "\<forall>k<M. real k < c * ?taus ! k" by blast
    have "integrated_autocorr_time acf x c = Inr (?taus ! M)"
      using M(1,2) len by (simp add: integrated_autocorr_time_def Let_def np_index_nat)
    with M show "\<exists>M<shape0 x. \<not> real M < c * ?taus ! M \<and>
           (\<forall>k<M. real k < c * ?taus ! k) \<and>
           integrated_autocorr_time acf x c = Inr (?taus ! M)" by blast
  qed
  have D: "(\<forall>M<shape0 x. real M < c * ?taus ! M) \<longrightarrow>
        integrated_autocorr_time acf x c = Inr (?taus ! 0)"
    using w np_index_nat[of 0 ?taus] pos by (simp add: integrated_autocorr_time_def Let_def)
  from len A B C D show ?thesis by blast
qed

theorem integrated_autocorr_time_window_witness:
  "0 < shape0 \<lparr>shape0 = 4, columns = [[1, -1, 1, -1]]\<rparr> \<and>
   columns \<lparr>shape0 = 4, columns = [[1, -1, 1, -1]]\<rparr> \<noteq> [] \<and>
   length (autocorr_function [1, -1, 1, -1]) = 4 \<and>
   integrated_autocorr_time autocorr_function \<lparr>shape0 = 4, columns = [[1, -1, 1, -1]]\<rparr> 5
     = Inr (- (1 / 2))"
proof -
  let ?x = "\<lparr>shape0 = 4, columns = [[1, -1, 1, -1 :: real]]\<rparr>"
  let ?taus = "integrated_taus autocorr_function ?x"
  have h: "0 < shape0 ?x" "columns ?x \<noteq> []"
    "\<forall>col\<in>set (columns ?x). length col = shape0 ?x \<and> length (autocorr_function col) = length col"
    by (simp_all add: autocorr_function_alternating)
  have l: "length (autocorr_function [1, -1, 1, -1]) = 4"
    by (simp add: autocorr_function_alternating)
  have t: "?taus = [1, - (1 / 2), 1 / 2, 0]" by (rule integrated_taus_alternating)
  have sat: "\<exists>M<shape0 ?x. real M < 5 * ?taus ! M"
    by (intro exI[of _ 0]) (simp add: t)
  have unsat: "\<exists>M<shape0 ?x. \<not> real M < 5 * ?taus ! M"
    by (intro exI[of _ 1]) (simp add: t)
  from integrated_autocorr_time_window[OF h, of 5] sat unsat
  obtain M where M: "M < shape0 ?x" "\<not> real M < 5 * ?taus ! M"
    "\<forall>k<M. real k < 5 * ?taus ! k"
    "integrated_autocorr_time autocorr_function ?x 5 = Inr (?taus ! M)" by blast
  have "M \<noteq> 0"
  proof
    assume "M = 0"
    with M(2) show False by (simp add: t)
  qed
  moreover have "\<not> 1 < M"
  proof
    assume "1 < M"
    with M(3) have "real 1 < 5 * ?taus ! 1" by blast
    then show False by (simp add: t)
  qed
  ultimately have "M = 1" by simp
  with M(4) have "integrated_autocorr_time autocorr_function ?x 5 = Inr (- (1 / 2))"
    by (simp add: t)
  with h(1,2) l show ?thesis by blast
qed

text \<open>
  Claim C3 as worded returns \<open>taus\<close> at the smallest index where \<open>M < c * taus[M]\<close>
  holds. For the single chain 1, -1, 1, -1 and \<open>c = 5\<close>, \<open>taus\<close> is 1, -1/2, 1/2, 0:
  the inequality holds at index 0, where \<open>taus\<close> is 1, and the function returns
  -1/2, which is \<open>taus\<close> at index 1, the first index where the inequality fails.
\<close>

theorem integrated_autocorr_time_window_counterexample:
  "integrated_taus autocorr_function \<lparr>shape0 = 4, columns = [[1, -1, 1, -1]]\<rparr>
     = [1, - (1 / 2), 1 / 2, 0] \<and>
   spec_window [1, - (1 / 2), 1 / 2, 0] 5 = 0 \<and>
   integrated_autocorr_time autocorr_function \<lparr>shape0 = 4, columns = [[1, -1, 1, -1]]\<rparr> 5
     = Inr (- (1 / 2)) \<and>
   Inr (- (1 / 2))
     \<noteq> (Inr ([1, - (1 / 2), 1 / 2, 0] ! spec_window [1, - (1 / 2), 1 / 2, 0] 5) :: error + real)"
proof -
  have a: "auto_window [1, - (1 / 2), 1 / 2, 0] 5 = 1"
    by (simp add: auto_window_def np_argmin_def upt_rec[of _ "numeral _"] upt_rec[of _ "Suc _"])
  have s: "spec_window [1, - (1 / 2), 1 / 2, 0] 5 = 0"
    by (simp add: spec_window_def upt_rec[of _ "numeral _"])
  show ?thesis
    by (simp add: integrated_autocorr_time_def integrated_taus_alternating a s np_index_def
        Let_def)
qed

section \<open>Results: Metropolis sampling\<close>

subsection \<open>Steps, sweeps and the production loop\<close>

lemma length_masked: "length (masked t cur prop) = length cur"
  by (simp add: masked_def)

lemma nth_masked: "j < length cur \<Longrightarrow> masked t cur prop ! j = (if t ! j then prop ! j else cur ! j)"
  by (simp add: masked_def)

lemma step_frame:
  "row (step env c) = row c" "calls (step env c) = Suc (calls c)"
  "length (states (step env c)) = length (states c)"
  "length (log_probs (step env c)) = length (log_probs c)"
  "length (accepted (step env c)) = length (accepted c)"
  "length (current_norm (step env c)) = length (current_norm c)"
  by (simp_all add: step_def Let_def length_masked split: prod.splits)

lemma step_other_rows:
  "i \<noteq> row c \<Longrightarrow> states (step env c) ! i = states c ! i"
  "i \<noteq> row c \<Longrightarrow> log_probs (step env c) ! i = log_probs c ! i"
  by (simp_all add: step_def Let_def split: prod.splits)

lemma step_current:
  assumes "consistent c" and "proposal env c = (ps, pn, plp)"
  shows "current_state (step env c) = masked (accept_mask env c) (current_state c) ps"
    and "current_log_prob (step env c) = masked (accept_mask env c) (current_log_prob c) plp"
    and "current_norm (step env c) = masked (accept_mask env c) (current_norm c) pn"
  using assms
  by (simp_all add: step_def Let_def consistent_def current_state_def current_log_prob_def)

lemma step_accepted:
  "j < length (accepted c) \<Longrightarrow>
   accepted (step env c) ! j = accepted c ! j + (if accept_mask env c ! j then 1 else 0)"
  by (simp add: step_def Let_def split: prod.splits)

lemma step_consistent: "consistent c \<Longrightarrow> consistent (step env c)"
proof -
  assume c: "consistent c"
  obtain ps pn plp where p: "proposal env c = (ps, pn, plp)" by (cases "proposal env c")
  show ?thesis
    using c step_current[OF c p] step_frame[of env c]
    by (simp add: consistent_def length_masked)
qed

lemma chain_of_step:
  assumes "consistent c"
  shows "chain_of (step env c) = chain_step env (calls c) (chain_of c)"
proof -
  obtain ps pn where k: "kernel_fn env (calls c) (current_state c) = (ps, pn)"
    by (cases "kernel_fn env (calls c) (current_state c)")
  then have p: "proposal env c = (ps, pn, log_prob_fn env ps)"
    by (simp add: proposal_def)
  have m: "accept_mask env c
      = map (\<lambda>j. 0 < pn ! j \<and>
                      float_le (float_div (rand env (calls c) j * pn ! j) (current_norm c ! j))
                        (exp (log_prob_fn env ps ! j - current_log_prob c ! j)))
                  [0..<length (current_state c)]"
    by (simp add: accept_mask_def p Let_def)
  show ?thesis
    using step_current[OF assms p]
    by (simp add: chain_of_def chain_step_def k Let_def m[symmetric])
qed

lemma tracks_step: "tracks env ch0 c \<Longrightarrow> tracks env ch0 (step env c)"
  by (simp add: tracks_def step_consistent chain_of_step step_frame)

lemma steps_props:
  assumes "tracks env ch0 c"
  shows "tracks env ch0 ((step env ^^ k) c) \<and>
         row ((step env ^^ k) c) = row c \<and>
         calls ((step env ^^ k) c) = calls c + k \<and>
         length (states ((step env ^^ k) c)) = length (states c) \<and>
         (\<forall>i. i \<noteq> row c \<longrightarrow> states ((step env ^^ k) c) ! i = states c ! i \<and>
                             log_probs ((step env ^^ k) c) ! i = log_probs c ! i)"
proof (induction k)
  case 0
  show ?case using assms by simp
next
  case (Suc k)
  let ?c = "(step env ^^ k) c"
  from Suc have t: "tracks env ch0 ?c" and r: "row ?c = row c" by simp_all
  show ?case
    using Suc tracks_step[OF t] step_frame[of env ?c] step_other_rows[of _ ?c env] r
    by simp
qed

lemma sweep_props:
  assumes "tracks env ch0 c"
  shows "tracks env ch0 (sweep env ss c) \<and>
         row (sweep env ss c) = row c \<and>
         calls (sweep env ss c) = calls c + nat ss \<and>
         length (states (sweep env ss c)) = length (states c) \<and>
         (\<forall>i. i \<noteq> row c \<longrightarrow> states (sweep env ss c) ! i = states c ! i \<and>
                             log_probs (sweep env ss c) ! i = log_probs c ! i)"
  unfolding sweep_def using assms by (rule steps_props)

lemma thermalisation_props:
  assumes "tracks env ch0 c"
  shows "tracks env ch0 (thermalisation env nd ss c) \<and>
         row (thermalisation env nd ss c) = row c \<and>
         calls (thermalisation env nd ss c) = calls c + nat nd * nat ss \<and>
         length (states (thermalisation env nd ss c)) = length (states c)"
proof -
  have "tracks env ch0 ((sweep env ss ^^ k) c) \<and>
         row ((sweep env ss ^^ k) c) = row c \<and>
         calls ((sweep env ss ^^ k) c) = calls c + k * nat ss \<and>
         length (states ((sweep env ss ^^ k) c)) = length (states c)" for k
  proof (induction k)
    case 0
    show ?case using assms by simp
  next
    case (Suc k)
    let ?c = "(sweep env ss ^^ k) c"
    from Suc have t: "tracks env ch0 ?c" by simp
    show ?case using Suc sweep_props[OF t, of ss] by simp
  qed
  then show ?thesis by (simp add: thermalisation_def)
qed

lemma reset_accepted_props:
  "tracks env ch0 c \<Longrightarrow> tracks env ch0 (reset_accepted c)"
  "row (reset_accepted c) = row c" "calls (reset_accepted c) = calls c"
  "states (reset_accepted c) = states c" "log_probs (reset_accepted c) = log_probs c"
  by (simp_all add: reset_accepted_def tracks_def consistent_def chain_of_def
      current_state_def current_log_prob_def)

lemma next_sample_props:
  assumes "tracks env ch0 c" and "i < length (states c)"
  shows "tracks env ch0 (next_sample i c)"
    and "row (next_sample i c) = i" and "calls (next_sample i c) = calls c"
    and "length (states (next_sample i c)) = length (states c)"
    and "\<And>j. j \<noteq> i \<Longrightarrow> states (next_sample i c) ! j = states c ! j"
    and "\<And>j. j \<noteq> i \<Longrightarrow> log_probs (next_sample i c) ! j = log_probs c ! j"
  using assms
  by (simp_all add: next_sample_def tracks_def consistent_def chain_of_def
      current_state_def current_log_prob_def)

lemma init_locals_tracks:
  assumes "1 \<le> ns" and "length initial_norm = length initial_state"
    and "length (log_prob_fn env initial_state) = length initial_state"
  shows "tracks env \<lparr> position = initial_state, weight = initial_norm,
                      log_weight = log_prob_fn env initial_state \<rparr>
           (init_locals env initial_state initial_norm ns mem_s mem_lp)"
  using assms
  by (simp add: tracks_def consistent_def chain_of_def init_locals_def
      current_state_def current_log_prob_def)

lemma tracks_current:
  assumes "tracks env ch0 c"
  shows "states c ! row c = position (chain_after env ch0 (calls c))"
    and "log_probs c ! row c = log_weight (chain_after env ch0 (calls c))"
proof -
  from assms have e: "chain_of c = chain_after env ch0 (calls c)" by (simp add: tracks_def)
  have "position (chain_of c) = states c ! row c" "log_weight (chain_of c) = log_probs c ! row c"
    by (simp_all add: chain_of_def current_state_def current_log_prob_def)
  with e show "states c ! row c = position (chain_after env ch0 (calls c))"
    and "log_probs c ! row c = log_weight (chain_after env ch0 (calls c))" by simp_all
qed

lemma samples_upto_next:
  assumes "samples_upto env ch0 d (nat ss) m c" and "1 \<le> m" and "m < length (states c)"
  shows "samples_upto env ch0 d (nat ss) (Suc m) (sweep env ss (next_sample m c))"
    and "length (states (sweep env ss (next_sample m c))) = length (states c)"
proof -
  let ?n = "next_sample m c" and ?c = "sweep env ss (next_sample m c)"
  from assms(1) have t: "tracks env ch0 c" and cl: "calls c = (d + (m - 1)) * nat ss"
    and old: "\<forall>i<m. states c ! i = position (chain_after env ch0 ((d + i) * nat ss)) \<and>
            log_probs c ! i = log_weight (chain_after env ch0 ((d + i) * nat ss))"
    by (simp_all add: samples_upto_def)
  note n = next_sample_props[OF t assms(3)]
  note sw = sweep_props[OF n(1), of ss]
  from sw have t': "tracks env ch0 ?c" by simp
  have r': "row ?c = m" using sw n(2) by simp
  have c': "calls ?c = (d + m) * nat ss"
  proof -
    from assms(2) obtain m' where m': "m = Suc m'" by (cases m) simp_all
    have "calls ?c = calls c + nat ss" using sw n(3) by simp
    then show ?thesis using cl by (simp add: m' add_mult_distrib)
  qed
  have rows: "states ?c ! i = position (chain_after env ch0 ((d + i) * nat ss)) \<and>
            log_probs ?c ! i = log_weight (chain_after env ch0 ((d + i) * nat ss))"
    if "i < Suc m" for i
  proof (cases "i = m")
    case True
    then show ?thesis using tracks_current[OF t'] r' c' by simp
  next
    case False
    with that have "i < m" by simp
    with old False sw n(2) n(5)[of i] n(6)[of i] show ?thesis by simp
  qed
  show "samples_upto env ch0 d (nat ss) (Suc m) ?c"
    using t' r' c' rows by (simp add: samples_upto_def)
  show "length (states ?c) = length (states c)" using sw n(4) by simp
qed

lemma production_samples:
  assumes "samples_upto env ch0 d (nat ss) 1 c"
  shows "1 \<le> m \<Longrightarrow> m \<le> length (states c) \<Longrightarrow>
         samples_upto env ch0 d (nat ss) m
           (fold (\<lambda>i c. sweep env ss (next_sample i c)) [1..<m] c) \<and>
         length (states (fold (\<lambda>i c. sweep env ss (next_sample i c)) [1..<m] c))
           = length (states c)"
proof (induction m)
  case 0
  then show ?case by simp
next
  case (Suc m)
  show ?case
  proof (cases "m = 0")
    case True
    then show ?thesis using assms by simp
  next
    case False
    let ?c = "fold (\<lambda>i c. sweep env ss (next_sample i c)) [1..<m] c"
    from False Suc.prems have m: "1 \<le> m" "m \<le> length (states c)" by simp_all
    from Suc.IH[OF m] have ih: "samples_upto env ch0 d (nat ss) m ?c"
      and len: "length (states ?c) = length (states c)" by simp_all
    have lt: "m < length (states ?c)" using Suc.prems len by simp
    have f: "fold (\<lambda>i c. sweep env ss (next_sample i c)) [1..<Suc m] c
               = sweep env ss (next_sample m ?c)"
      using m(1) by simp
    show ?thesis
      using samples_upto_next[OF ih m(1) lt] len by (simp only: f)
  qed
qed

lemma before_production_samples:
  assumes "1 \<le> ns" and "length initial_norm = length initial_state"
    and "length (log_prob_fn env initial_state) = length initial_state"
  shows "samples_upto env \<lparr> position = initial_state, weight = initial_norm,
                      log_weight = log_prob_fn env initial_state \<rparr> (nat nd) (nat ss) 1
           (before_production env initial_state initial_norm ns nd ss mem_s mem_lp)"
    and "length (states (before_production env initial_state initial_norm ns nd ss mem_s mem_lp))
           = nat ns"
proof -
  let ?ch0 = "\<lparr> position = initial_state, weight = initial_norm,
                      log_weight = log_prob_fn env initial_state \<rparr>"
  let ?c0 = "init_locals env initial_state initial_norm ns mem_s mem_lp"
  let ?c1 = "thermalisation env nd ss ?c0"
  have t0: "tracks env ?ch0 ?c0" using assms by (rule init_locals_tracks)
  have c0: "row ?c0 = 0" "calls ?c0 = 0" "length (states ?c0) = nat ns"
    by (simp_all add: init_locals_def)
  note th = thermalisation_props[OF t0, of nd ss]
  have t2: "tracks env ?ch0 (reset_accepted ?c1)"
    using th by (simp add: reset_accepted_props)
  have r2: "row (reset_accepted ?c1) = 0" "calls (reset_accepted ?c1) = nat nd * nat ss"
    using th c0 by (simp_all add: reset_accepted_props)
  show "samples_upto env ?ch0 (nat nd) (nat ss) 1
           (before_production env initial_state initial_norm ns nd ss mem_s mem_lp)"
    using t2 r2 tracks_current[OF t2]
    by (simp add: samples_upto_def before_production_def)
  show "length (states (before_production env initial_state initial_norm ns nd ss mem_s mem_lp))
           = nat ns"
    using th c0 by (simp add: before_production_def reset_accepted_props)
qed

lemma length_chain_after:
  "length (position (chain_after env ch k)) = length (position ch)"
  "length (log_weight (chain_after env ch k)) = length (log_weight ch)"
  by (induction k) (simp_all add: chain_step_def Let_def length_masked split: prod.splits)

subsection \<open>One elementary step\<close>

lemma float_le_div: "b \<noteq> 0 \<Longrightarrow> float_le (float_div a b) e \<longleftrightarrow> a / b \<le> e"
  by (simp add: float_div_def)

lemma nth_accept_mask:
  assumes "proposal env c = (ps, pn, plp)" and "j < length (current_state c)"
  shows "accept_mask env c ! j \<longleftrightarrow>
           0 < pn ! j \<and>
           float_le (float_div (rand env (calls c) j * pn ! j) (current_norm c ! j))
             (exp (plp ! j - current_log_prob c ! j))"
  using assms by (simp add: accept_mask_def Let_def)

lemma step_positive_norm:
  assumes "consistent c" and "\<forall>j<length (current_state c). 0 < current_norm c ! j"
  shows "\<forall>j<length (current_state (step env c)). 0 < current_norm (step env c) ! j"
proof (intro allI impI)
  fix j assume "j < length (current_state (step env c))"
  obtain ps pn plp where p: "proposal env c = (ps, pn, plp)" by (cases "proposal env c")
  note cur = step_current[OF assms(1) p]
  from \<open>j < length (current_state (step env c))\<close> have j: "j < length (current_state c)"
    by (simp add: cur length_masked)
  then have jn: "j < length (current_norm c)" using assms(1) by (simp add: consistent_def)
  show "0 < current_norm (step env c) ! j"
    using assms(2) j jn nth_accept_mask[OF p j] by (simp add: cur nth_masked)
qed

text \<open>
  Claim C1. At an elementary step, chain \<open>j\<close> accepts exactly when the proposed norm
  is positive and the float comparison \<open>u * norm' / norm \<le> exp(log_prob' - log_prob)\<close>
  holds, with \<open>u\<close> the uniform draw of that chain; where the current norm is not
  zero this is the same inequality over the reals. On acceptance the state, the
  norm and the log-probability of the chain become the proposed ones together,
  and the counter of the chain grows by one; otherwise all of them stay. The
  shapes the step relies on hold again afterwards, so the same is true of the
  next step.
\<close>

theorem sweep_step_acceptance:
  assumes "consistent c" and "j < length (current_state c)"
    and "proposal env c = (ps, pn, plp)"
  shows "(accept_mask env c ! j \<longleftrightarrow>
            0 < pn ! j \<and>
            float_le (float_div (rand env (calls c) j * pn ! j) (current_norm c ! j))
              (exp (plp ! j - current_log_prob c ! j))) \<and>
         (current_norm c ! j \<noteq> 0 \<longrightarrow>
            (accept_mask env c ! j \<longleftrightarrow>
               0 < pn ! j \<and>
               rand env (calls c) j * pn ! j / current_norm c ! j
                 \<le> exp (plp ! j - current_log_prob c ! j))) \<and>
         (accept_mask env c ! j \<longrightarrow>
            current_state (step env c) ! j = ps ! j \<and>
            current_norm (step env c) ! j = pn ! j \<and>
            current_log_prob (step env c) ! j = plp ! j \<and>
            accepted (step env c) ! j = accepted c ! j + 1) \<and>
         (\<not> accept_mask env c ! j \<longrightarrow>
            current_state (step env c) ! j = current_state c ! j \<and>
            current_norm (step env c) ! j = current_norm c ! j \<and>
            current_log_prob (step env c) ! j = current_log_prob c ! j \<and>
            accepted (step env c) ! j = accepted c ! j) \<and>
         consistent (step env c)"
proof -
  from assms(1,2) have j: "j < length (current_norm c)" "j < length (current_log_prob c)"
    "j < length (accepted c)" by (simp_all add: consistent_def)
  note m = nth_accept_mask[OF assms(3,2)]
  note cur = step_current[OF assms(1,3)]
  have m': "current_norm c ! j \<noteq> 0 \<longrightarrow>
            (accept_mask env c ! j \<longleftrightarrow>
               0 < pn ! j \<and>
               rand env (calls c) j * pn ! j / current_norm c ! j
                 \<le> exp (plp ! j - current_log_prob c ! j))"
    using m by (simp add: float_le_div)
  have yes: "accept_mask env c ! j \<longrightarrow>
            current_state (step env c) ! j = ps ! j \<and>
            current_norm (step env c) ! j = pn ! j \<and>
            current_log_prob (step env c) ! j = plp ! j \<and>
            accepted (step env c) ! j = accepted c ! j + 1"
    using assms(2) j by (simp add: cur nth_masked step_accepted)
  have no: "\<not> accept_mask env c ! j \<longrightarrow>
            current_state (step env c) ! j = current_state c ! j \<and>
            current_norm (step env c) ! j = current_norm c ! j \<and>
            current_log_prob (step env c) ! j = current_log_prob c ! j \<and>
            accepted (step env c) ! j = accepted c ! j"
    using assms(2) j by (simp add: cur nth_masked step_accepted)
  from m m' yes no step_consistent[OF assms(1)] show ?thesis by blast
qed

theorem sweep_step_acceptance_witness:
  "consistent walker_start \<and> 0 < length (current_state walker_start) \<and>
   proposal walker walker_start = ([1], [1], [0]) \<and>
   accept_mask walker walker_start ! 0 \<and>
   current_state (step walker walker_start) ! 0 = 1 \<and>
   accepted (step walker walker_start) ! 0 = 1"
proof -
  have c: "consistent walker_start"
    by (simp add: consistent_def current_state_def current_log_prob_def walker_start_def)
  have j: "0 < length (current_state walker_start)"
    by (simp add: current_state_def walker_start_def)
  have p: "proposal walker walker_start = ([1], [1], [0])"
    by (simp add: proposal_def walker_def current_state_def walker_start_def)
  have n: "current_norm walker_start ! 0 \<noteq> 0" by (simp add: walker_start_def)
  note t = sweep_step_acceptance[OF c j p]
  from t n have "accept_mask walker walker_start ! 0 \<longleftrightarrow>
      0 < [1::real] ! 0 \<and>
      rand walker (calls walker_start) 0 * [1] ! 0 / current_norm walker_start ! 0
        \<le> exp ([0] ! 0 - current_log_prob walker_start ! 0)"
    by blast
  then have acc: "accept_mask walker walker_start ! 0"
    by (simp add: walker_def current_log_prob_def walker_start_def)
  with t have "current_state (step walker walker_start) ! 0 = [1] ! 0"
    and "accepted (step walker walker_start) ! 0 = accepted walker_start ! 0 + 1" by blast+
  with c j p acc show ?thesis by (simp add: walker_start_def)
qed

subsection \<open>The samples returned\<close>

lemma per_chain_walker: "per_chain walker"
  by (simp add: per_chain_def walker_def)

lemma singleton_nth: "length xs = 1 \<Longrightarrow> xs = [xs ! 0]"
  by (cases xs) simp_all

lemma walker_after_1:
  "chain_after walker \<lparr> position = [0], weight = [1], log_weight = log_prob_fn walker [0] \<rparr> (Suc 0)
     = \<lparr> position = [1], weight = [1], log_weight = [0] \<rparr>"
  by (simp add: chain_step_def walker_def masked_def float_div_def)

lemma walker_after_2:
  "chain_after walker \<lparr> position = [0], weight = [1], log_weight = log_prob_fn walker [0] \<rparr> (Suc (Suc 0))
     = \<lparr> position = [2], weight = [1], log_weight = [0] \<rparr>"
  using walker_after_1 by (simp add: chain_step_def masked_def float_div_def) (simp add: walker_def)

text \<open>
  Claim C9. \<open>metropolis_process\<close> returns \<open>number_samples\<close> rows of states and of
  log-probabilities, each with one entry per chain. Row 0 is the chain after the
  \<open>number_discarded\<close> thermalisation sweeps, and row \<open>i\<close> is the chain after \<open>i\<close>
  further sweeps, a sweep being \<open>sweep_size\<close> elementary steps. The chain is the one
  started at the initial state; what the fresh tensors held does not matter.
\<close>

theorem metropolis_process_samples_order:
  assumes "1 \<le> ns" and "length initial_norm = length initial_state" and "per_chain env"
  shows "\<exists>S L A. metropolis_process env initial_state initial_norm ns nd ss mem_s mem_lp
                    = Inr (S, L, A) \<and>
           length S = nat ns \<and> length L = nat ns \<and>
           (\<forall>i<nat ns.
              S ! i = position (chain_after env
                        \<lparr> position = initial_state, weight = initial_norm,
                          log_weight = log_prob_fn env initial_state \<rparr>
                        ((nat nd + i) * nat ss)) \<and>
              L ! i = log_weight (chain_after env
                        \<lparr> position = initial_state, weight = initial_norm,
                          log_weight = log_prob_fn env initial_state \<rparr>
                        ((nat nd + i) * nat ss)) \<and>
              length (S ! i) = length initial_state \<and> length (L ! i) = length initial_state)"
proof -
  let ?ch0 = "\<lparr> position = initial_state, weight = initial_norm,
                      log_weight = log_prob_fn env initial_state \<rparr>"
  let ?c2 = "before_production env initial_state initial_norm ns nd ss mem_s mem_lp"
  let ?c3 = "production env ns ss ?c2"
  have lp: "length (log_prob_fn env initial_state) = length initial_state"
    using assms(3) by (simp add: per_chain_def)
  note b = before_production_samples[OF assms(1,2) lp, of nd ss mem_s mem_lp]
  have m: "1 \<le> nat ns" "nat ns \<le> length (states ?c2)" using assms(1) b(2) by simp_all
  from production_samples[OF b(1) m]
  have p: "samples_upto env ?ch0 (nat nd) (nat ss) (nat ns) ?c3"
    and len: "length (states ?c3) = nat ns"
    using b(2) by (simp_all add: production_def)
  from p have "consistent ?c3" by (simp add: samples_upto_def tracks_def)
  then have len': "length (log_probs ?c3) = nat ns" using len by (simp add: consistent_def)
  have rows: "\<forall>i<nat ns.
      states ?c3 ! i = position (chain_after env ?ch0 ((nat nd + i) * nat ss)) \<and>
      log_probs ?c3 ! i = log_weight (chain_after env ?ch0 ((nat nd + i) * nat ss))"
    using p by (simp add: samples_upto_def)
  have "metropolis_process env initial_state initial_norm ns nd ss mem_s mem_lp
          = Inr (states ?c3, log_probs ?c3,
                 map (\<lambda>a. float_div (real_of_int a) (real_of_int ((ns - 1) * ss))) (accepted ?c3))"
    using assms(1) by (simp add: metropolis_process_def Let_def)
  then show ?thesis
    using len len' rows lp by (simp add: length_chain_after)
qed

theorem metropolis_process_samples_order_witness:
  "(1::int) \<le> 2 \<and> length [1::real] = length [0::nat] \<and> per_chain walker \<and>
   (\<exists>S L A. metropolis_process walker [0] [1] 2 1 1 (\<lambda>i. []) (\<lambda>i. []) = Inr (S, L, A) \<and>
      length S = 2 \<and> S ! 0 = [1] \<and> S ! 1 = [2])"
proof -
  have h: "(1::int) \<le> 2" "length [1::real] = length [0::nat]" by simp_all
  from metropolis_process_samples_order[OF h per_chain_walker, of 1 1 "\<lambda>i. []" "\<lambda>i. []"]
  obtain S L A where r: "metropolis_process walker [0] [1] 2 1 1 (\<lambda>i. []) (\<lambda>i. []) = Inr (S, L, A)"
    and len: "length S = nat 2"
    and rows: "\<forall>i<nat 2. S ! i = position (chain_after walker
                        \<lparr> position = [0], weight = [1],
                          log_weight = log_prob_fn walker [0] \<rparr>
                        ((nat 1 + i) * nat 1))" by blast
  from rows have "S ! 0 = [1]" "S ! 1 = [2]"
    using walker_after_1 walker_after_2 by (simp_all add: numeral_2_eq_2)
  with r len h per_chain_walker show ?thesis by simp
qed

subsection \<open>The acceptance counters\<close>

lemma length_sweep_masks: "length (sweep_masks env k c) = k"
  by (induction k arbitrary: c) auto

lemma length_production_masks:
  "length (production_masks env ss rows c) = length rows * nat ss"
  by (induction rows arbitrary: c) (auto simp: length_sweep_masks)

lemma length_accepted_steps: "length (accepted ((step env ^^ k) c)) = length (accepted c)"
  by (induction k) (simp_all add: step_frame)

lemma accepted_steps:
  "j < length (accepted c) \<Longrightarrow>
   accepted ((step env ^^ k) c) ! j
     = accepted c ! j + int (length (filter (\<lambda>t. t ! j) (sweep_masks env k c)))"
proof (induction k arbitrary: c)
  case 0
  then show ?case by simp
next
  case (Suc k)
  have j: "j < length (accepted (step env c))" using Suc.prems by (simp add: step_frame)
  have "accepted ((step env ^^ Suc k) c) ! j = accepted ((step env ^^ k) (step env c)) ! j"
    by (simp add: funpow_swap1)
  also have "\<dots> = accepted (step env c) ! j
                    + int (length (filter (\<lambda>t. t ! j) (sweep_masks env k (step env c))))"
    using j by (rule Suc.IH)
  finally show ?case using Suc.prems by (simp add: step_accepted)
qed

lemma accepted_next_sample: "accepted (next_sample i c) = accepted c"
  by (simp add: next_sample_def)

lemma accepted_production:
  "j < length (accepted c) \<Longrightarrow>
   accepted (fold (\<lambda>i c. sweep env ss (next_sample i c)) rows c) ! j
     = accepted c ! j + int (length (filter (\<lambda>t. t ! j) (production_masks env ss rows c)))"
proof (induction rows arbitrary: c)
  case Nil
  then show ?case by simp
next
  case (Cons i rows)
  let ?c = "sweep env ss (next_sample i c)"
  have s: "accepted ?c ! j = accepted c ! j
             + int (length (filter (\<lambda>t. t ! j) (sweep_masks env (nat ss) (next_sample i c))))"
    using Cons.prems accepted_steps[where j=j and c="next_sample i c" and env=env and k="nat ss"]
    by (simp add: sweep_def accepted_next_sample)
  have j: "j < length (accepted ?c)"
    using Cons.prems by (simp add: sweep_def length_accepted_steps accepted_next_sample)
  from Cons.IH[OF j] s show ?case by simp
qed

lemma length_accepted_production:
  "length (accepted (fold (\<lambda>i c. sweep env ss (next_sample i c)) rows c)) = length (accepted c)"
  by (induction rows arbitrary: c)
     (simp_all add: sweep_def length_accepted_steps accepted_next_sample)

lemma length_accepted_thermalisation:
  "length (accepted (thermalisation env nd ss c)) = length (accepted c)"
proof -
  have "length (accepted ((sweep env ss ^^ k) c)) = length (accepted c)" for k
    by (induction k) (simp_all add: sweep_def length_accepted_steps)
  then show ?thesis by (simp add: thermalisation_def)
qed

lemma accepted_before_production:
  "accepted (before_production env initial_state initial_norm ns nd ss mem_s mem_lp)
     = replicate (length initial_state) 0"
proof -
  let ?c1 = "thermalisation env nd ss (init_locals env initial_state initial_norm ns mem_s mem_lp)"
  have "length (accepted ?c1) = length initial_state"
    by (simp add: length_accepted_thermalisation init_locals_def)
  then show ?thesis
    by (simp add: before_production_def reset_accepted_def map_replicate_const)
qed

text \<open>
  Claim C5. When the production loop starts, right after the thermalisation
  sweeps, the counter of every chain is 0. The production loop makes
  \<open>(number_samples - 1) * sweep_size\<close> elementary steps, and the acceptance returned
  for chain \<open>j\<close> is the number of those steps at which chain \<open>j\<close> accepted, divided
  by \<open>(number_samples - 1) * sweep_size\<close>: no thermalisation step is counted.
\<close>

theorem acceptance_counts_production_only:
  assumes "1 \<le> ns" and "length initial_norm = length initial_state" and "per_chain env"
  shows "accepted (before_production env initial_state initial_norm ns nd ss mem_s mem_lp)
           = replicate (length initial_state) 0 \<and>
         length (production_masks env ss [1..<nat ns]
           (before_production env initial_state initial_norm ns nd ss mem_s mem_lp))
           = nat (ns - 1) * nat ss \<and>
         (\<exists>S L A. metropolis_process env initial_state initial_norm ns nd ss mem_s mem_lp
                    = Inr (S, L, A) \<and>
            length A = length initial_state \<and>
            (\<forall>j<length initial_state.
               A ! j = float_div
                 (real (length (filter (\<lambda>t. t ! j)
                    (production_masks env ss [1..<nat ns]
                       (before_production env initial_state initial_norm ns nd ss mem_s mem_lp)))))
                 (real_of_int ((ns - 1) * ss))))"
proof -
  let ?c2 = "before_production env initial_state initial_norm ns nd ss mem_s mem_lp"
  let ?c3 = "production env ns ss ?c2"
  have z: "accepted ?c2 = replicate (length initial_state) 0"
    by (rule accepted_before_production)
  have l: "length (production_masks env ss [1..<nat ns] ?c2) = nat (ns - 1) * nat ss"
    using assms(1) by (simp only: length_production_masks length_upt) (simp add: nat_diff_distrib')
  have la: "length (accepted ?c3) = length initial_state"
    by (simp add: production_def length_accepted_production z)
  have a: "accepted ?c3 ! j
             = int (length (filter (\<lambda>t. t ! j) (production_masks env ss [1..<nat ns] ?c2)))"
    if "j < length initial_state" for j
    using that accepted_production[where j=j and c="?c2" and env=env and ss=ss and rows="[1..<nat ns]"]
    by (simp add: production_def z)
  have r: "metropolis_process env initial_state initial_norm ns nd ss mem_s mem_lp
          = Inr (states ?c3, log_probs ?c3,
                 map (\<lambda>a. float_div (real_of_int a) (real_of_int ((ns - 1) * ss))) (accepted ?c3))"
    using assms(1) by (simp add: metropolis_process_def Let_def)
  show ?thesis using z l la a r by simp
qed

theorem acceptance_counts_production_only_witness:
  "(1::int) \<le> 2 \<and> length [1::real] = length [0::nat] \<and> per_chain walker \<and>
   accepted (before_production walker [0] [1] 2 1 1 (\<lambda>i. []) (\<lambda>i. [])) = [0] \<and>
   length (production_masks walker 1 [1..<nat 2]
     (before_production walker [0] [1] 2 1 1 (\<lambda>i. []) (\<lambda>i. []))) = 1"
proof -
  have h: "(1::int) \<le> 2" "length [1::real] = length [0::nat]" by simp_all
  from acceptance_counts_production_only[OF h per_chain_walker, of 1 1 "\<lambda>i. []" "\<lambda>i. []"] per_chain_walker
  show ?thesis by simp
qed

subsection \<open>A single sample\<close>

text \<open>
  Claim C8. With \<open>number_samples = 1\<close> the call raises nothing. It returns one row
  of states and one of log-probabilities, the chain after the thermalisation
  sweeps, which is the initial state itself when \<open>number_discarded\<close> is 0 (the
  default for fewer than ten samples). The acceptance of every chain is the float
  division of 0 by 0, which is NaN.
\<close>

theorem metropolis_process_single_sample:
  assumes "length initial_norm = length initial_state" and "per_chain env"
  shows "\<exists>S L A. metropolis_process env initial_state initial_norm 1 nd ss mem_s mem_lp
                    = Inr (S, L, A) \<and>
           S = [position (chain_after env
                  \<lparr> position = initial_state, weight = initial_norm,
                    log_weight = log_prob_fn env initial_state \<rparr> (nat nd * nat ss))] \<and>
           L = [log_weight (chain_after env
                  \<lparr> position = initial_state, weight = initial_norm,
                    log_weight = log_prob_fn env initial_state \<rparr> (nat nd * nat ss))] \<and>
           A = replicate (length initial_state) NaN \<and>
           (nd \<le> 0 \<longrightarrow> S = [initial_state] \<and> L = [log_prob_fn env initial_state])"
proof -
  let ?ch0 = "\<lparr> position = initial_state, weight = initial_norm,
                      log_weight = log_prob_fn env initial_state \<rparr>"
  let ?c2 = "before_production env initial_state initial_norm 1 nd ss mem_s mem_lp"
  have lp: "length (log_prob_fn env initial_state) = length initial_state"
    using assms(2) by (simp add: per_chain_def)
  have one: "(1::int) \<le> 1" by simp
  note b = before_production_samples[OF one assms(1) lp, of nd ss mem_s mem_lp]
  have p: "production env 1 ss ?c2 = ?c2" by (simp add: production_def)
  from b(1) have "consistent ?c2" by (simp add: samples_upto_def tracks_def)
  with b(2) have ll: "length (log_probs ?c2) = 1" by (simp add: consistent_def)
  have s0: "states ?c2 ! 0 = position (chain_after env ?ch0 (nat nd * nat ss))"
    and l0: "log_probs ?c2 ! 0 = log_weight (chain_after env ?ch0 (nat nd * nat ss))"
    using b(1) by (simp_all add: samples_upto_def)
  have S: "states ?c2 = [position (chain_after env ?ch0 (nat nd * nat ss))]"
    using singleton_nth[of "states ?c2"] b(2) s0 by simp
  have L: "log_probs ?c2 = [log_weight (chain_after env ?ch0 (nat nd * nat ss))]"
    using singleton_nth[of "log_probs ?c2"] ll l0 by simp
  have A: "map (\<lambda>a. float_div (real_of_int a) (real_of_int ((1 - 1) * ss))) (accepted ?c2)
             = replicate (length initial_state) NaN"
    by (simp add: accepted_before_production float_div_def)
  have r: "metropolis_process env initial_state initial_norm 1 nd ss mem_s mem_lp
          = Inr (states ?c2, log_probs ?c2,
                 map (\<lambda>a. float_div (real_of_int a) (real_of_int ((1 - 1) * ss))) (accepted ?c2))"
    by (simp add: metropolis_process_def Let_def p)
  have z: "nd \<le> 0 \<longrightarrow> chain_after env ?ch0 (nat nd * nat ss) = ?ch0" by simp
  from r S L A
  have "metropolis_process env initial_state initial_norm 1 nd ss mem_s mem_lp
          = Inr ([position (chain_after env ?ch0 (nat nd * nat ss))],
                 [log_weight (chain_after env ?ch0 (nat nd * nat ss))],
                 replicate (length initial_state) NaN)"
    by simp
  then show ?thesis using z by simp
qed

theorem metropolis_process_single_sample_witness:
  "length [1::real] = length [0::nat] \<and> per_chain walker \<and>
   metropolis_process walker [0] [1] 1 0 3 (\<lambda>i. []) (\<lambda>i. []) = Inr ([[0]], [[0]], [NaN])"
proof -
  have h: "length [1::real] = length [0::nat]" by simp
  from metropolis_process_single_sample[OF h per_chain_walker, of 0 3 "\<lambda>i. []" "\<lambda>i. []"]
  show ?thesis using per_chain_walker by (auto simp: walker_def)
qed

section \<open>Results: exact sampling\<close>

lemma xs_unbound: "''xs'' \<notin> set module_names"
  by (simp add: module_names_def)

text \<open>
  Claim C4. \<open>sample_exactly\<close> passes \<open>xs\<close> to the forward pass, a name that neither
  the function nor the module binds. So in the module's namespace every call
  raises \<open>NameError\<close> at line 260, before the rank and device checks and before
  any sampling, whatever the log-probability function, the basis and the options
  are.
\<close>

theorem sample_exactly_raises_NameError: 
  assumes "dom globals \<subseteq> set module_names"
  shows "sample_exactly globals lpf basis_states options choice = Inl (NameError ''xs'')"
proof -
  from assms xs_unbound have "globals ''xs'' = None" by blast
  then show ?thesis by (simp add: sample_exactly_def)
qed

theorem sample_exactly_raises_NameError_witness:
  "dom (map_of (map (\<lambda>n. (n, Other)) module_names)) \<subseteq> set module_names \<and>
   sample_exactly (map_of (map (\<lambda>n. (n, Other)) module_names))
     (\<lambda>xs. \<lparr> t_shape = [length xs], t_device = Device ''cpu'', t_elems = map (\<lambda>x. 0) xs \<rparr>)
     [0, 1]
     \<lparr> number_samples = 1, number_chains = 1, number_discarded = 0, sweep_size = 1,
       device = Device ''cpu'' \<rparr>
     (\<lambda>k. 0)
   = Inl (NameError ''xs'')"
proof -
  have d: "dom (map_of (map (\<lambda>n. (n, Other)) module_names)) \<subseteq> set module_names"
    by (auto simp: dom_map_of_conv_image_fst)
  from sample_exactly_raises_NameError[OF d] d show ?thesis by blast
qed

end
